theory Spec2Isabelle
  imports Main "HOL-Library.Word" "HOL-Library.AList"
begin

unbundle bit_operations_syntax

section \<open>IPv4 addresses and their text\<close>

text \<open>
  The allocator of \<^verbatim>\<open>pkg/network/ipam.go\<close> works on Go's \<^verbatim>\<open>net.IP\<close>, a byte slice in
  network byte order, which for an IPv4 network has four bytes. The four bytes are read
  here as one 32-bit word, most significant byte first. The allocator keys its map by the
  text of an address (\<^verbatim>\<open>net.IP.String\<close>) and reads text back with \<^verbatim>\<open>net.ParseIP\<close> and
  \<^verbatim>\<open>net.ParseCIDR\<close>. \<^verbatim>\<open>net.ParseIP\<close> is written out in full, for dotted-decimal and for
  IPv6 text, and gives the sixteen bytes of the address as a list. \<^verbatim>\<open>net.ParseCIDR\<close> is
  written out for IPv4 networks; on the text of an IPv6 network it answers \<open>None\<close>.
\<close>

type_synonym ip4 = "32 word"

record IPNet =
  IP :: ip4
  Mask :: ip4

definition digit :: "nat \<Rightarrow> char" where
  "digit d = ''0123456789'' ! d"

definition is_digit :: "char \<Rightarrow> bool" where
  "is_digit c = (48 \<le> (of_char c :: nat) \<and> (of_char c :: nat) \<le> 57)"

definition digit_val :: "char \<Rightarrow> nat" where
  "digit_val c = of_char c - 48"

text \<open>\<^verbatim>\<open>appendDecimal\<close> of \<^verbatim>\<open>net/netip\<close>: a byte in decimal, no leading zero.\<close>

definition appendDecimal :: "nat \<Rightarrow> string" where
  "appendDecimal x =
     (if x \<ge> 100 then [digit (x div 100)] else []) @
     (if x \<ge> 10 then [digit (x div 10 mod 10)] else []) @
     [digit (x mod 10)]"

definition octet :: "ip4 \<Rightarrow> nat \<Rightarrow> nat" where
  "octet w i = (unat w div 256 ^ (3 - i)) mod 256"

definition from_octets :: "nat \<Rightarrow> nat \<Rightarrow> nat \<Rightarrow> nat \<Rightarrow> ip4" where
  "from_octets a b c d = word_of_nat (((a * 256 + b) * 256 + c) * 256 + d)"

text \<open>\<^verbatim>\<open>net.IP.String\<close> on a four-byte address.\<close>

definition String :: "ip4 \<Rightarrow> string" where
  "String w =
     appendDecimal (octet w 0) @ ''.'' @ appendDecimal (octet w 1) @ ''.'' @
     appendDecimal (octet w 2) @ ''.'' @ appendDecimal (octet w 3)"

text \<open>
  \<^verbatim>\<open>parseIPv4Fields\<close> of \<^verbatim>\<open>net/netip\<close>: one pass over the characters with the value and
  the digit count of the current field and the fields read so far. A field with a leading
  zero, a value above 255, an empty field, a fifth field and any other character are errors.
\<close>

fun parseIPv4Fields :: "string \<Rightarrow> nat \<Rightarrow> nat \<Rightarrow> nat list \<Rightarrow> nat list option" where
  "parseIPv4Fields [] val digLen fs =
     (if length fs < 3 then None else Some (fs @ [val]))"
| "parseIPv4Fields (c # cs) val digLen fs =
     (if is_digit c then
        (if digLen = 1 \<and> val = 0 then None
         else if val * 10 + digit_val c > 255 then None
         else parseIPv4Fields cs (val * 10 + digit_val c) (Suc digLen) fs)
      else if c = CHR ''.'' then
        (if digLen = 0 \<or> cs = [] then None
         else if length fs = 3 then None
         else parseIPv4Fields cs 0 0 (fs @ [val]))
      else None)"

text \<open>\<^verbatim>\<open>parseIPv4\<close> of \<^verbatim>\<open>net/netip\<close>: the four fields as one address.\<close>

definition parseIPv4 :: "string \<Rightarrow> ip4 option" where
  "parseIPv4 s =
     (case parseIPv4Fields s 0 0 [] of
        Some [a, b, c, d] \<Rightarrow> Some (from_octets a b c d)
      | _ \<Rightarrow> None)"

definition is_hex :: "char \<Rightarrow> bool" where
  "is_hex c =
     (is_digit c \<or> (97 \<le> (of_char c :: nat) \<and> (of_char c :: nat) \<le> 102) \<or>
      (65 \<le> (of_char c :: nat) \<and> (of_char c :: nat) \<le> 70))"

definition hex_val :: "char \<Rightarrow> nat" where
  "hex_val c =
     (if is_digit c then of_char c - 48
      else if 97 \<le> (of_char c :: nat) then of_char c - 87
      else of_char c - 55)"

text \<open>
  The inner loop of \<^verbatim>\<open>parseIPv6\<close> of \<^verbatim>\<open>net/netip\<close>: the hexadecimal digits at the head
  of the text, with the count \<open>off\<close> of digits read and their value \<open>acc\<close>. A fifth digit
  and a value above \<open>0xFFFF\<close> are errors.
\<close>

fun hexField :: "string \<Rightarrow> nat \<Rightarrow> nat \<Rightarrow> (nat \<times> nat) option" where
  "hexField [] off acc = Some (off, acc)"
| "hexField (c # cs) off acc =
     (if is_hex c then
        (if off > 3 then None
         else if acc * 16 + hex_val c > 65535 then None
         else hexField cs (Suc off) (acc * 16 + hex_val c))
      else Some (off, acc))"

text \<open>
  The outer loop of \<^verbatim>\<open>parseIPv6\<close>, which runs while fewer than sixteen bytes are written:
  the text still to read, the bytes written so far (their number is the loop's \<open>i\<close>) and
  the position of the \<open>::\<close>, if one was seen. A group followed by a dot starts the
  trailing dotted-decimal part, which must end the text and fill the last four bytes, or
  come after a \<open>::\<close>. The loop gives the text left over, the bytes and the position of
  the \<open>::\<close>.
\<close>

function parseIPv6Loop ::
  "string \<Rightarrow> nat list \<Rightarrow> nat option \<Rightarrow> (string \<times> nat list \<times> nat option) option" where
  "parseIPv6Loop s ip ellipsis =
     (if length ip < 16 then
        (case hexField s 0 0 of
           None \<Rightarrow> None
         | Some (off, acc) \<Rightarrow>
             if off = 0 then None
             else if off < length s \<and> s ! off = CHR ''.'' then
               (if ellipsis = None \<and> length ip \<noteq> 12 then None
                else if length ip + 4 > 16 then None
                else (case parseIPv4Fields s 0 0 [] of
                        None \<Rightarrow> None
                      | Some fs \<Rightarrow> Some ([], ip @ fs, ellipsis)))
             else if drop off s = [] then Some ([], ip @ [acc div 256, acc mod 256], ellipsis)
             else if s ! off \<noteq> CHR '':'' then None
             else if length (drop off s) = 1 then None
             else if s ! Suc off = CHR '':'' then
               (if ellipsis \<noteq> None then None
                else if drop (Suc (Suc off)) s = []
                  then Some ([], ip @ [acc div 256, acc mod 256], Some (Suc (Suc (length ip))))
                else parseIPv6Loop (drop (Suc (Suc off)) s) (ip @ [acc div 256, acc mod 256])
                       (Some (Suc (Suc (length ip)))))
             else parseIPv6Loop (drop (Suc off) s) (ip @ [acc div 256, acc mod 256]) ellipsis)
      else Some (s, ip, ellipsis))"
  by pat_completeness auto
termination
  by (relation "measure (\<lambda>(s, ip, ellipsis). 16 - length ip)") auto

declare parseIPv6Loop.simps [simp del]

text \<open>
  \<^verbatim>\<open>parseIPv6\<close> as \<^verbatim>\<open>net.ParseIP\<close> uses it. A text with a percent sign has a zone or an
  empty zone, and \<^verbatim>\<open>net.ParseIP\<close> refuses both. A leading \<open>::\<close> is read before the loop;
  after the loop the whole text must be read, and a \<open>::\<close> stands for the missing bytes,
  at least two of them.
\<close>

definition parseIPv6 :: "string \<Rightarrow> nat list option" where
  "parseIPv6 s =
     (if CHR ''%'' \<in> set s then None
      else if take 2 s = ''::'' \<and> drop 2 s = [] then Some (replicate 16 0)
      else
        (case parseIPv6Loop (if take 2 s = ''::'' then drop 2 s else s) []
                (if take 2 s = ''::'' then Some 0 else None) of
           None \<Rightarrow> None
         | Some (rest, ip, ellipsis) \<Rightarrow>
             if rest \<noteq> [] then None
             else if length ip < 16 then
               (case ellipsis of
                  None \<Rightarrow> None
                | Some e \<Rightarrow> Some (take e ip @ replicate (16 - length ip) 0 @ drop e ip))
             else if ellipsis \<noteq> None then None
             else Some ip))"

definition v4InV6Prefix :: "nat list" where
  "v4InV6Prefix = [0, 0, 0, 0, 0, 0, 0, 0, 0, 0, 255, 255]"

text \<open>
  \<^verbatim>\<open>net.ParseIP\<close>: the first dot, colon or percent sign of the text decides between
  dotted-decimal and IPv6 text; the result has sixteen bytes, an IPv4 address after the
  prefix \<^verbatim>\<open>v4InV6Prefix\<close>.
\<close>

definition ParseIP :: "string \<Rightarrow> nat list option" where
  "ParseIP s =
     (case dropWhile (\<lambda>c. c \<noteq> CHR ''.'' \<and> c \<noteq> CHR '':'' \<and> c \<noteq> CHR ''%'') s of
        [] \<Rightarrow> None
      | c # rest \<Rightarrow>
          if c = CHR ''.'' then map_option (\<lambda>fs. v4InV6Prefix @ fs) (parseIPv4Fields s 0 0 [])
          else if c = CHR '':'' then parseIPv6 s
          else None)"

text \<open>
  \<^verbatim>\<open>net.IP.To4\<close>: the four-byte form of an address, which a four-byte slice and a
  sixteen-byte slice with the prefix \<^verbatim>\<open>v4InV6Prefix\<close> have.
\<close>

definition To4 :: "nat list \<Rightarrow> ip4 option" where
  "To4 ip =
     (if length ip = 4 then Some (from_octets (ip ! 0) (ip ! 1) (ip ! 2) (ip ! 3))
      else if length ip = 16 \<and> take 12 ip = v4InV6Prefix
        then Some (from_octets (ip ! 12) (ip ! 13) (ip ! 14) (ip ! 15))
      else None)"

text \<open>\<^verbatim>\<open>dtoi\<close> of package \<^verbatim>\<open>net\<close> on a whole string: decimal digits only, at least one.\<close>

fun dtoi :: "string \<Rightarrow> nat \<Rightarrow> nat" where
  "dtoi [] n = n"
| "dtoi (c # cs) n = dtoi cs (n * 10 + digit_val c)"

definition CIDRMask :: "nat \<Rightarrow> ip4" where
  "CIDRMask ones = NOT (mask (32 - ones))"

text \<open>
  \<^verbatim>\<open>net.ParseCIDR\<close> for an IPv4 network: the text before the first slash is a
  dotted-decimal address, the text after it a prefix length of at most 32; the network's
  address is the address under the mask.
\<close>

definition ParseCIDR :: "string \<Rightarrow> IPNet option" where
  "ParseCIDR s =
     (let addr = takeWhile (\<lambda>c. c \<noteq> CHR ''/'') s;
          rest = dropWhile (\<lambda>c. c \<noteq> CHR ''/'') s
      in if rest = [] then None
         else (case parseIPv4 addr of
                 None \<Rightarrow> None
               | Some ip \<Rightarrow>
                   (let m = tl rest in
                    if m = [] \<or> \<not> list_all is_digit m \<or> dtoi m 0 > 32 then None
                    else Some \<lparr>IP = ip AND CIDRMask (dtoi m 0), Mask = CIDRMask (dtoi m 0)\<rparr>)))"

text \<open>
  \<^verbatim>\<open>(*IPNet).Contains\<close> on a four-byte address: the address and the network agree under
  the mask.
\<close>

definition Contains :: "IPNet \<Rightarrow> ip4 \<Rightarrow> bool" where
  "Contains n ip = (IP n AND Mask n = ip AND Mask n)"

text \<open>
  \<^verbatim>\<open>(*IPNet).Contains\<close> on a parsed address: the method takes the four-byte form first;
  an address that has none is longer than the network's address and is not contained.
\<close>

definition ContainsIP :: "IPNet \<Rightarrow> nat list \<Rightarrow> bool" where
  "ContainsIP n ip = (case To4 ip of None \<Rightarrow> False | Some x \<Rightarrow> Contains n x)"

section \<open>The address allocator (pkg/network/ipam.go)\<close>

datatype error =
  InvalidCIDR | NoMoreIPs | InvalidIP | NotInNetwork | AlreadyAllocated | NilPeer

record IPAllocator =
  network :: IPNet
  allocated :: "string set"
  nextIP :: ip4

text \<open>
  \<^verbatim>\<open>incrementIP\<close> adds one to the last byte and carries into the bytes before it while a
  byte wraps to zero; on four bytes that is adding one modulo \<open>2 ^ 32\<close>.
\<close>

definition incrementIP :: "ip4 \<Rightarrow> ip4" where
  "incrementIP ip = ip + 1"

text \<open>
  \<^verbatim>\<open>isBroadcast\<close>: \<^verbatim>\<open>net.IP.Equal\<close> of the parsed address, nil or of sixteen bytes, and the
  four bytes of the broadcast address holds when the four-byte form of the one is the other.
\<close>

definition isBroadcast :: "nat list option \<Rightarrow> IPNet \<Rightarrow> bool" where
  "isBroadcast ip n =
     (case ip of None \<Rightarrow> False | Some x \<Rightarrow> To4 x = Some (IP n OR NOT (Mask n)))"

definition NewIPAllocator :: "string \<Rightarrow> error + IPAllocator" where
  "NewIPAllocator cidr =
     (case ParseCIDR cidr of
        None \<Rightarrow> Inl InvalidCIDR
      | Some n \<Rightarrow> Inr \<lparr>network = n, allocated = {}, nextIP = incrementIP (IP n)\<rparr>)"

text \<open>
  \<^verbatim>\<open>AllocateIP\<close> is a loop with no bound of its own, so it is a partial function: \<open>None\<close>
  stands for a call that never returns. A returning call gives the allocated text or the
  error, and the allocator after the call.
\<close>

partial_function (option) AllocateIP ::
  "IPAllocator \<Rightarrow> ((error + string) \<times> IPAllocator) option" where
  "AllocateIP a =
     (if \<not> Contains (network a) (nextIP a) then Some (Inl NoMoreIPs, a)
      else if isBroadcast (ParseIP (String (nextIP a))) (network a)
        then AllocateIP (a\<lparr>nextIP := incrementIP (nextIP a)\<rparr>)
      else if String (nextIP a) \<notin> allocated a
        then Some (Inr (String (nextIP a)),
                   a\<lparr>nextIP := incrementIP (nextIP a),
                     allocated := insert (String (nextIP a)) (allocated a)\<rparr>)
      else AllocateIP (a\<lparr>nextIP := incrementIP (nextIP a)\<rparr>))"

definition AllocateSpecificIP :: "IPAllocator \<Rightarrow> string \<Rightarrow> error option \<times> IPAllocator" where
  "AllocateSpecificIP a ip =
     (case ParseIP ip of
        None \<Rightarrow> (Some InvalidIP, a)
      | Some parsedIP \<Rightarrow>
          if \<not> ContainsIP (network a) parsedIP then (Some NotInNetwork, a)
          else if ip \<in> allocated a then (Some AlreadyAllocated, a)
          else (None, a\<lparr>allocated := insert ip (allocated a)\<rparr>))"

definition ReleaseIP :: "IPAllocator \<Rightarrow> string \<Rightarrow> IPAllocator" where
  "ReleaseIP a ip = a\<lparr>allocated := allocated a - {ip}\<rparr>"

definition IsAllocated :: "IPAllocator \<Rightarrow> string \<Rightarrow> bool" where
  "IsAllocated a ip = (ip \<in> allocated a)"

text \<open>
  Runs of allocator calls, for the statements about every sequence of operations. A run
  is \<open>None\<close> when one of its \<^verbatim>\<open>AllocateIP\<close> calls never returns.
\<close>

datatype ipam_op = OpAllocate | OpReserve string | OpRelease string

fun ipam_step :: "ipam_op \<Rightarrow> IPAllocator \<Rightarrow> IPAllocator option" where
  "ipam_step OpAllocate a = map_option snd (AllocateIP a)"
| "ipam_step (OpReserve ip) a = Some (snd (AllocateSpecificIP a ip))"
| "ipam_step (OpRelease ip) a = Some (ReleaseIP a ip)"

fun ipam_run :: "ipam_op list \<Rightarrow> IPAllocator \<Rightarrow> IPAllocator option" where
  "ipam_run [] a = Some a"
| "ipam_run (x # xs) a = (case ipam_step x a of None \<Rightarrow> None | Some a' \<Rightarrow> ipam_run xs a')"

section \<open>Keys (pkg/crypto/keys.go)\<close>

text \<open>
  \<^verbatim>\<open>base64.StdEncoding.DecodeString\<close>: line breaks are skipped, the rest is read four
  characters at a time, and only the last group may end in one or two padding characters.
\<close>

definition b64_index :: "char \<Rightarrow> nat option" where
  "b64_index c =
     (let n = (of_char c :: nat) in
      if 65 \<le> n \<and> n \<le> 90 then Some (n - 65)
      else if 97 \<le> n \<and> n \<le> 122 then Some (n - 71)
      else if 48 \<le> n \<and> n \<le> 57 then Some (n + 4)
      else if c = CHR ''+'' then Some 62
      else if c = CHR ''/'' then Some 63
      else None)"

fun decodeQuanta :: "string \<Rightarrow> nat list option" where
  "decodeQuanta [] = Some []"
| "decodeQuanta [a, b, c, d] =
     (case (b64_index a, b64_index b) of
        (Some x, Some y) \<Rightarrow>
          (if c = CHR ''='' \<and> d = CHR ''='' then Some [x * 4 + y div 16]
           else (case b64_index c of
                   None \<Rightarrow> None
                 | Some z \<Rightarrow>
                     (if d = CHR ''='' then Some [x * 4 + y div 16, y mod 16 * 16 + z div 4]
                      else (case b64_index d of
                              None \<Rightarrow> None
                            | Some w \<Rightarrow>
                                Some [x * 4 + y div 16, y mod 16 * 16 + z div 4,
                                      z mod 4 * 64 + w]))))
      | _ \<Rightarrow> None)"
| "decodeQuanta (a # b # c # d # rest) =
     (case (b64_index a, b64_index b, b64_index c, b64_index d) of
        (Some x, Some y, Some z, Some w) \<Rightarrow>
          map_option (\<lambda>bs. [x * 4 + y div 16, y mod 16 * 16 + z div 4, z mod 4 * 64 + w] @ bs)
            (decodeQuanta rest)
      | _ \<Rightarrow> None)"
| "decodeQuanta _ = None"

definition DecodeString :: "string \<Rightarrow> nat list option" where
  "DecodeString s = decodeQuanta (filter (\<lambda>c. c \<noteq> CHR 0x0A \<and> c \<noteq> CHR 0x0D) s)"

definition KeySize :: nat where
  "KeySize = 32"

text \<open>\<^verbatim>\<open>ParsePublicKey\<close>: the base64 text must decode, and to exactly \<open>KeySize\<close> bytes.\<close>

definition ParsePublicKey :: "string \<Rightarrow> nat list option" where
  "ParsePublicKey key =
     (case DecodeString key of
        None \<Rightarrow> None
      | Some decoded \<Rightarrow> if length decoded \<noteq> KeySize then None else Some decoded)"

section \<open>Messages (pkg/protocol/messages.go)\<close>

text \<open>
  A \<^verbatim>\<open>time.Time\<close> is the instant's count of nanoseconds, the value \<^verbatim>\<open>UnixNano\<close> reads;
  a \<^verbatim>\<open>time.Duration\<close> is a signed 64-bit count of nanoseconds, and \<^verbatim>\<open>Time.Sub\<close> stops at
  its least and greatest value. Every handler reads the clock as an argument.
\<close>

type_synonym time = int

definition Sub :: "time \<Rightarrow> time \<Rightarrow> int" where
  "Sub t u = max (- (2 ^ 63)) (min (2 ^ 63 - 1) (t - u))"

record Peer =
  ID :: string
  PublicKey :: string
  VirtualIP :: string
  Endpoint :: string
  Hostname :: string
  OS :: string
  AllowedIPs :: "string list"
  ExitNode :: bool
  LastHeartbeat :: time
  Online :: bool

record RegisterRequest =
  PublicKey_req :: string
  Hostname_req :: string
  OS_req :: string
  Endpoint_req :: string
  RequestIP :: bool
  ExitNode_req :: bool
  AllowedIPs_req :: "string list"

text \<open>
  The response's \<^verbatim>\<open>network_cidr\<close> is the text of the allocator's network; the network
  itself stands for it here.
\<close>

record RegisterResponse =
  Success :: bool
  Error :: string
  AssignedIP :: string
  NetworkCIDR :: "IPNet option"
  PeerID :: string
  ServerPublicKey :: string

record HeartbeatRequest =
  PeerID_hb :: string
  Endpoint_hb :: string

record HeartbeatResponse =
  Success_hb :: bool
  Error_hb :: string

section \<open>The peer store (pkg/server/store.go)\<close>

text \<open>
  The store is a file holding a JSON array of peers; its content is the list of peers.
  Reading and writing the file are taken to succeed.
\<close>

fun SavePeer :: "Peer list \<Rightarrow> Peer \<Rightarrow> Peer list" where
  "SavePeer [] peer = [peer]"
| "SavePeer (p # ps) peer = (if ID p = ID peer then peer # ps else p # SavePeer ps peer)"

section \<open>The coordination server (pkg/server/server.go)\<close>

text \<open>
  The two Go maps are association lists with one entry per key: assigning to a key
  replaces its entry or adds one at the end, and ranging over the map visits the entries
  in the list's order (Go leaves the order open; no statement below depends on it). The
  handlers run under the server's lock, one at a time, so each is a function from the
  server before the call to the reply and the server after it.
\<close>

record Server =
  ipAllocator :: IPAllocator
  peers :: "(string \<times> Peer) list"
  peersByKey :: "(string \<times> string) list"
  publicKey :: string
  store :: "Peer list"

definition HeartbeatTimeout :: int where
  "HeartbeatTimeout = 2 * (60 * 1000000000)"

text \<open>\<^verbatim>\<open>fmt.Sprintf("%d", n)\<close> of a signed integer.\<close>

fun uitoa :: "nat \<Rightarrow> string" where
  "uitoa n = (if n < 10 then [digit n] else uitoa (n div 10) @ [digit (n mod 10)])"

definition Sprintf_d :: "int \<Rightarrow> string" where
  "Sprintf_d i = (if i < 0 then CHR ''-'' # uitoa (nat (- i)) else uitoa (nat i))"

definition generatePeerID :: "time \<Rightarrow> string" where
  "generatePeerID now = ''peer-'' @ Sprintf_d now"

text \<open>
  \<^verbatim>\<open>handleRegister\<close> after the request is decoded. \<open>idNow\<close> is the clock reading inside
  \<^verbatim>\<open>generatePeerID\<close>, \<open>now\<close> the one stored as the last heartbeat. The reply \<open>Inl NilPeer\<close>
  is the panic on a key whose id has no record; \<open>None\<close> is a call that never returns.
\<close>

definition handleRegister ::
  "Server \<Rightarrow> RegisterRequest \<Rightarrow> time \<Rightarrow> time \<Rightarrow> ((error + RegisterResponse) \<times> Server) option" where
  "handleRegister s req idNow now =
     (case map_of (peersByKey s) (PublicKey_req req) of
        Some peerID \<Rightarrow>
          (case map_of (peers s) peerID of
             None \<Rightarrow> Some (Inl NilPeer, s)
           | Some peer \<Rightarrow>
               (let resp = \<lparr>Success = True, Error = [], AssignedIP = VirtualIP peer,
                            NetworkCIDR = Some (network (ipAllocator s)), PeerID = ID peer,
                            ServerPublicKey = publicKey s\<rparr>;
                    peer' = peer\<lparr>Hostname := Hostname_req req, OS := OS_req req,
                                  Endpoint := Endpoint_req req, LastHeartbeat := now,
                                  Online := True\<rparr>
                in Some (Inr resp,
                         s\<lparr>peers := AList.update peerID peer' (peers s),
                           store := SavePeer (store s) peer'\<rparr>)))
      | None \<Rightarrow>
          (case AllocateIP (ipAllocator s) of
             None \<Rightarrow> None
           | Some (Inl err, a') \<Rightarrow>
               Some (Inr \<lparr>Success = False, Error = ''no more IP addresses available'',
                          AssignedIP = [], NetworkCIDR = None, PeerID = [],
                          ServerPublicKey = []\<rparr>,
                     s\<lparr>ipAllocator := a'\<rparr>)
           | Some (Inr ip, a') \<Rightarrow>
               (let peerID = generatePeerID idNow;
                    peer = \<lparr>ID = peerID, PublicKey = PublicKey_req req, VirtualIP = ip,
                            Endpoint = Endpoint_req req, Hostname = Hostname_req req,
                            OS = OS_req req,
                            AllowedIPs = (if ExitNode_req req then [ip @ ''/32'', ''0.0.0.0/0'']
                                          else [ip @ ''/32'']),
                            ExitNode = ExitNode_req req, LastHeartbeat = now, Online = True\<rparr>;
                    resp = \<lparr>Success = True, Error = [], AssignedIP = ip,
                            NetworkCIDR = Some (network a'), PeerID = peerID,
                            ServerPublicKey = publicKey s\<rparr>
                in Some (Inr resp,
                         s\<lparr>ipAllocator := a',
                           peers := AList.update peerID peer (peers s),
                           peersByKey := AList.update (PublicKey_req req) peerID (peersByKey s),
                           store := SavePeer (store s) peer\<rparr>))))"

definition handleHeartbeat ::
  "Server \<Rightarrow> HeartbeatRequest \<Rightarrow> time \<Rightarrow> HeartbeatResponse \<times> Server" where
  "handleHeartbeat s req now =
     (case map_of (peers s) (PeerID_hb req) of
        None \<Rightarrow> (\<lparr>Success_hb = False, Error_hb = ''Peer not found''\<rparr>, s)
      | Some peer \<Rightarrow>
          (let peer' = peer\<lparr>LastHeartbeat := now, Online := True\<rparr>;
               peer'' = (if Endpoint_hb req \<noteq> [] then peer'\<lparr>Endpoint := Endpoint_hb req\<rparr>
                         else peer')
           in (\<lparr>Success_hb = True, Error_hb = []\<rparr>,
               s\<lparr>peers := AList.update (PeerID_hb req) peer'' (peers s),
                 store := SavePeer (store s) peer''\<rparr>)))"

text \<open>
  \<^verbatim>\<open>handlePeerList\<close> for a GET request with query parameter \<open>peerID\<close>: the left values are
  the HTTP status codes of the refusals, the right value is the \<^verbatim>\<open>peers\<close> array of the reply.
\<close>

definition handlePeerList :: "Server \<Rightarrow> string \<Rightarrow> nat + Peer list" where
  "handlePeerList s peerID =
     (if peerID = [] then Inl 400
      else if map_of (peers s) peerID = None then Inl 404
      else Inr (map snd (filter (\<lambda>(k, peer). k \<noteq> peerID) (peers s))))"

text \<open>
  One pass of \<^verbatim>\<open>cleanupRoutine\<close>, at the clock reading \<open>now\<close>: the loop over the peers
  still to visit, with the store, giving the visited peers and the store after the pass.
\<close>

fun cleanupLoop :: "time \<Rightarrow> (string \<times> Peer) list \<Rightarrow> Peer list \<Rightarrow> (string \<times> Peer) list \<times> Peer list" where
  "cleanupLoop now [] st = ([], st)"
| "cleanupLoop now ((k, peer) # rest) st =
     (if Sub now (LastHeartbeat peer) > HeartbeatTimeout then
        (if Online peer then
           (case cleanupLoop now rest (SavePeer st (peer\<lparr>Online := False\<rparr>)) of
              (ps, st') \<Rightarrow> ((k, peer\<lparr>Online := False\<rparr>) # ps, st'))
         else (case cleanupLoop now rest st of (ps, st') \<Rightarrow> ((k, peer) # ps, st')))
      else (case cleanupLoop now rest st of (ps, st') \<Rightarrow> ((k, peer) # ps, st')))"

definition cleanupPass :: "Server \<Rightarrow> time \<Rightarrow> Server" where
  "cleanupPass s now =
     (case cleanupLoop now (peers s) (store s) of
        (ps, st) \<Rightarrow> s\<lparr>peers := ps, store := st\<rparr>)"

fun loadPeersFromStore :: "Peer list \<Rightarrow> Server \<Rightarrow> Server" where
  "loadPeersFromStore [] s = s"
| "loadPeersFromStore (peer # rest) s =
     loadPeersFromStore rest
       (s\<lparr>peers := AList.update (ID peer) peer (peers s),
          peersByKey := AList.update (PublicKey peer) (ID peer) (peersByKey s),
          ipAllocator := snd (AllocateSpecificIP (ipAllocator s) (VirtualIP peer))\<rparr>)"

text \<open>
  \<^verbatim>\<open>NewServer\<close> for a network text, the server's public key (loaded or freshly generated)
  and the content of the store's file.
\<close>

definition NewServer :: "string \<Rightarrow> string \<Rightarrow> Peer list \<Rightarrow> error + Server" where
  "NewServer cidr pub file =
     (case NewIPAllocator cidr of
        Inl e \<Rightarrow> Inl e
      | Inr a \<Rightarrow>
          Inr (loadPeersFromStore file
                 \<lparr>ipAllocator = a, peers = [], peersByKey = [], publicKey = pub, store = file\<rparr>))"

text \<open>
  The life of a coordinator: requests, sweeper passes and restarts, one after the other.
  A restart builds a new server from the same configuration and the store's file as the
  old process left it.
\<close>

datatype event =
  Register RegisterRequest time time
| Heartbeat HeartbeatRequest time
| Sweep time
| Restart

fun step :: "string \<Rightarrow> event \<Rightarrow> Server \<Rightarrow> Server option" where
  "step cidr (Register req idNow now) s = map_option snd (handleRegister s req idNow now)"
| "step cidr (Heartbeat req now) s = Some (snd (handleHeartbeat s req now))"
| "step cidr (Sweep now) s = Some (cleanupPass s now)"
| "step cidr Restart s =
     (case NewServer cidr (publicKey s) (store s) of Inl e \<Rightarrow> None | Inr s' \<Rightarrow> Some s')"

fun run :: "string \<Rightarrow> event list \<Rightarrow> Server \<Rightarrow> Server option" where
  "run cidr [] s = Some s"
| "run cidr (e # es) s = (case step cidr e s of None \<Rightarrow> None | Some s' \<Rightarrow> run cidr es s')"

section \<open>The agent's reconcile (pkg/wireguard/interface.go, pkg/client/client.go)\<close>

text \<open>
  \<^verbatim>\<open>AddPeer\<close> reads the allowed addresses with \<^verbatim>\<open>net.ParseCIDR\<close>, which here may give
  an IPv6 network: sixteen bytes under a mask of sixteen bytes. \<^verbatim>\<open>net.CIDRMask\<close> for 128
  bits and the IPv6 half of \<^verbatim>\<open>net.ParseCIDR\<close>, whose text before the slash is IPv6 text
  without a zone and whose prefix length is at most 128:
\<close>

record IPNet6 =
  IP6 :: "nat list"
  Mask6 :: "nat list"

definition CIDRMask6 :: "nat \<Rightarrow> nat list" where
  "CIDRMask6 ones = map (\<lambda>i. 255 - 255 div 2 ^ min 8 (ones - 8 * i)) [0..<16]"

definition ParseCIDR6 :: "string \<Rightarrow> IPNet6 option" where
  "ParseCIDR6 s =
     (let addr = takeWhile (\<lambda>c. c \<noteq> CHR ''/'') s;
          rest = dropWhile (\<lambda>c. c \<noteq> CHR ''/'') s
      in if rest = [] then None
         else (case dropWhile (\<lambda>c. c \<noteq> CHR ''.'' \<and> c \<noteq> CHR '':'' \<and> c \<noteq> CHR ''%'') addr of
                 [] \<Rightarrow> None
               | c # cs \<Rightarrow>
                   if c = CHR '':'' then
                     (case parseIPv6 addr of
                        None \<Rightarrow> None
                      | Some ip \<Rightarrow>
                          (let m = tl rest in
                           if m = [] \<or> \<not> list_all is_digit m \<or> dtoi m 0 > 128 then None
                           else Some \<lparr>IP6 = map2 (AND) ip (CIDRMask6 (dtoi m 0)),
                                      Mask6 = CIDRMask6 (dtoi m 0)\<rparr>))
                   else None))"

text \<open>\<^verbatim>\<open>net.ParseCIDR\<close> in full: an IPv4 network, on the left, or an IPv6 network.\<close>

definition ParseCIDRNet :: "string \<Rightarrow> (IPNet + IPNet6) option" where
  "ParseCIDRNet s =
     (case ParseCIDR s of
        Some n \<Rightarrow> Some (Inl n)
      | None \<Rightarrow> map_option Inr (ParseCIDR6 s))"

record PeerConfig =
  PublicKey_pc :: string
  Endpoint_pc :: string
  AllowedIPs_pc :: "string list"
  KeepAlive :: int

text \<open>
  One peer of a device configuration, as \<^verbatim>\<open>wgtypes.PeerConfig\<close> carries it from \<^verbatim>\<open>AddPeer\<close>:
  the key, the endpoint or nil, the allowed networks and the keepalive interval; the
  other fields keep their zero values.
\<close>

record 'addr DevicePeer =
  dp_PublicKey :: "nat list"
  dp_Endpoint :: "'addr option"
  dp_AllowedIPs :: "(IPNet + IPNet6) list"
  dp_PersistentKeepalive :: int

datatype wg_error = BadPublicKey | BadEndpoint | BadAllowedIP | ConfigureFailed

text \<open>
  The allowed addresses of \<^verbatim>\<open>AddPeer\<close>, one after the other: each text is a CIDR, or else
  a single address that is taken with prefix length 32 when it has a four-byte form and
  128 otherwise; the first text that is neither ends the call with an error. The second
  \<^verbatim>\<open>net.ParseCIDR\<close> call has its error dropped and its network dereferenced: \<open>None\<close> is
  the panic on a nil network.
\<close>

fun parseAllowedIPs :: "string list \<Rightarrow> (wg_error + (IPNet + IPNet6) list) option" where
  "parseAllowedIPs [] = Some (Inr [])"
| "parseAllowedIPs (ip # rest) =
     (case (case ParseCIDRNet ip of
              Some ipNet \<Rightarrow> Some (Inr ipNet)
            | None \<Rightarrow>
                (case ParseIP ip of
                   None \<Rightarrow> Some (Inl BadAllowedIP)
                 | Some parsedIP \<Rightarrow>
                     map_option Inr
                       (if To4 parsedIP \<noteq> None then ParseCIDRNet (ip @ ''/32'')
                        else ParseCIDRNet (ip @ ''/128'')))) of
        None \<Rightarrow> None
      | Some (Inl e) \<Rightarrow> Some (Inl e)
      | Some (Inr ipNet) \<Rightarrow>
          (case parseAllowedIPs rest of
             None \<Rightarrow> None
           | Some (Inl e) \<Rightarrow> Some (Inl e)
           | Some (Inr ns) \<Rightarrow> Some (Inr (ipNet # ns))))"

text \<open>
  \<^verbatim>\<open>(*Interface).AddPeer\<close>. \<^verbatim>\<open>wgtypes.ParseKey\<close> decodes base64 text of 32 bytes, as
  \<^verbatim>\<open>ParsePublicKey\<close> does. \<^verbatim>\<open>net.ResolveUDPAddr\<close> may ask the resolver of the host, so it
  is the parameter \<open>resolve\<close>. The WireGuard device behind \<^verbatim>\<open>wgctrl.Client.ConfigureDevice\<close>
  is not part of the repository, so the call with one peer is the parameter \<open>configure\<close>:
  from the device before the call and the peer it gives whether the call succeeded and
  the device after it. 25 seconds is \<open>25000000000\<close> nanoseconds. \<open>None\<close> is the panic of
  \<^verbatim>\<open>parseAllowedIPs\<close>.
\<close>

definition AddPeer ::
  "(string \<Rightarrow> 'addr option) \<Rightarrow> ('dev \<Rightarrow> 'addr DevicePeer \<Rightarrow> bool \<times> 'dev) \<Rightarrow> 'dev \<Rightarrow> PeerConfig \<Rightarrow>
     (wg_error option \<times> 'dev) option" where
  "AddPeer resolve configure dev peer =
     (case ParsePublicKey (PublicKey_pc peer) of
        None \<Rightarrow> Some (Some BadPublicKey, dev)
      | Some key \<Rightarrow>
          (case (if Endpoint_pc peer \<noteq> [] then map_option Some (resolve (Endpoint_pc peer))
                 else Some None) of
             None \<Rightarrow> Some (Some BadEndpoint, dev)
           | Some endpoint \<Rightarrow>
               (case parseAllowedIPs (AllowedIPs_pc peer) of
                  None \<Rightarrow> None
                | Some (Inl e) \<Rightarrow> Some (Some e, dev)
                | Some (Inr allowedIPs) \<Rightarrow>
                    (let keepAlive = (if KeepAlive peer = 0 then 25 * 1000000000 else KeepAlive peer);
                         r = configure dev
                               \<lparr>dp_PublicKey = key, dp_Endpoint = endpoint,
                                dp_AllowedIPs = allowedIPs, dp_PersistentKeepalive = keepAlive\<rparr>
                     in Some (if fst r then None else Some ConfigureFailed, snd r)))))"

text \<open>
  \<^verbatim>\<open>syncPeers\<close> after the peer list is fetched and decoded: the loop over the listed
  peers. A peer that is not online is passed over; a peer whose \<^verbatim>\<open>AddPeer\<close> fails is
  logged and passed over.
\<close>

fun syncPeers ::
  "(string \<Rightarrow> 'addr option) \<Rightarrow> ('dev \<Rightarrow> 'addr DevicePeer \<Rightarrow> bool \<times> 'dev) \<Rightarrow> 'dev \<Rightarrow> Peer list \<Rightarrow>
     'dev option" where
  "syncPeers resolve configure dev [] = Some dev"
| "syncPeers resolve configure dev (peer # rest) =
     (if \<not> Online peer then syncPeers resolve configure dev rest
      else
        (case AddPeer resolve configure dev
                \<lparr>PublicKey_pc = PublicKey peer, Endpoint_pc = Endpoint peer,
                 AllowedIPs_pc = AllowedIPs peer, KeepAlive = 25 * 1000000000\<rparr> of
           None \<Rightarrow> None
         | Some r \<Rightarrow> syncPeers resolve configure (snd r) rest))"

text \<open>
  Modelled from the spec: a device for the examples, which keeps the DataPlane contract.
  It holds one entry per key; adding a peer is an idempotent upsert, where the same key
  replaces endpoint, allowed addresses and keepalive, and never fails.
\<close>

definition ConfigureDevice ::
  "(nat list \<times> 'addr DevicePeer) list \<Rightarrow> 'addr DevicePeer \<Rightarrow> bool \<times> (nat list \<times> 'addr DevicePeer) list" where
  "ConfigureDevice dev p = (True, AList.update (dp_PublicKey p) p dev)"

section \<open>Notions for the statements\<close>

text \<open>A network as \<^verbatim>\<open>ParseCIDR\<close> makes it, with \<open>h\<close> host bits.\<close>

definition net_of :: "IPNet \<Rightarrow> nat \<Rightarrow> bool" where
  "net_of n h = (h \<le> 32 \<and> Mask n = NOT (mask h) \<and> IP n AND mask h = 0)"

text \<open>The distance of an address from the network's address, modulo \<open>2 ^ 32\<close>.\<close>

definition offset :: "IPNet \<Rightarrow> ip4 \<Rightarrow> nat" where
  "offset n ip = unat (ip - IP n)"

text \<open>
  What a returning \<^verbatim>\<open>AllocateIP\<close> call has done, in a network with \<open>h\<close> host bits: the
  cursor has not moved back and is at most one past the last address of the network; an
  error leaves the allocated set alone and means that every address from the cursor to
  the one before the broadcast address is allocated; a success returns the text of the
  first address from the cursor on that is not allocated, which lies strictly between the
  network address and the broadcast address, and puts the cursor right after it.
\<close>

definition alloc_post :: "nat \<Rightarrow> IPAllocator \<Rightarrow> (error + string) \<Rightarrow> IPAllocator \<Rightarrow> bool" where
  "alloc_post h a r a' =
     (network a' = network a \<and>
      offset (network a) (nextIP a) \<le> offset (network a) (nextIP a') \<and>
      offset (network a) (nextIP a') \<le> 2 ^ h \<and>
      (case r of
         Inl e \<Rightarrow>
           e = NoMoreIPs \<and> allocated a' = allocated a \<and>
           offset (network a) (nextIP a') = 2 ^ h \<and>
           (\<forall>j. offset (network a) (nextIP a) \<le> j \<and> j < 2 ^ h - 1 \<longrightarrow>
                String (IP (network a) + of_nat j) \<in> allocated a)
       | Inr ip \<Rightarrow>
           (\<exists>k. offset (network a) (nextIP a) \<le> k \<and> k < 2 ^ h - 1 \<and>
                ip = String (IP (network a) + of_nat k) \<and> ip \<notin> allocated a \<and>
                allocated a' = insert ip (allocated a) \<and>
                offset (network a) (nextIP a') = k + 1 \<and>
                (\<forall>j. offset (network a) (nextIP a) \<le> j \<and> j < k \<longrightarrow>
                     String (IP (network a) + of_nat j) \<in> allocated a))))"

text \<open>
  The allocator's invariant in a network with \<open>h\<close> host bits that is not the whole
  address space: the cursor is after the network address and at most one past the last
  address of the network.
\<close>

definition ipam_inv :: "nat \<Rightarrow> IPAllocator \<Rightarrow> bool" where
  "ipam_inv h a =
     (net_of (network a) h \<and> h < 32 \<and>
      1 \<le> offset (network a) (nextIP a) \<and> offset (network a) (nextIP a) \<le> 2 ^ h)"

text \<open>
  The registry's invariant: one entry per id; every record sits under its own id, which
  is not empty; the key index leads from a record's public key to its id; and the store's
  file holds the records of the table, in the table's order.
\<close>

definition registry_inv :: "Server \<Rightarrow> bool" where
  "registry_inv s =
     (distinct (map fst (peers s)) \<and>
      (\<forall>(k, p) \<in> set (peers s).
          ID p = k \<and> k \<noteq> [] \<and> map_of (peersByKey s) (PublicKey p) = Some k) \<and>
      store s = map snd (peers s))"

text \<open>
  The invariant of the addresses, in a network \<open>n\<close> with \<open>h\<close> host bits: the allocator
  works on \<open>n\<close> and keeps its own invariant; every record's address is allocated and is
  the text of an address strictly between the network address and the broadcast
  address; no two records share an address.
\<close>

definition address_inv :: "IPNet \<Rightarrow> nat \<Rightarrow> Server \<Rightarrow> bool" where
  "address_inv n h s =
     (network (ipAllocator s) = n \<and> ipam_inv h (ipAllocator s) \<and>
      (\<forall>(k, p) \<in> set (peers s).
          VirtualIP p \<in> allocated (ipAllocator s) \<and>
          (\<exists>j. 1 \<le> j \<and> j < 2 ^ h - 1 \<and> VirtualIP p = String (IP n + of_nat j))) \<and>
      (\<forall>(k, p) \<in> set (peers s). \<forall>(k', p') \<in> set (peers s).
          VirtualIP p = VirtualIP p' \<longrightarrow> k = k'))"

text \<open>A registration request with the given public key, for the examples.\<close>

definition example_request :: "string \<Rightarrow> RegisterRequest" where
  "example_request key =
     \<lparr>PublicKey_req = key, Hostname_req = ''host'', OS_req = ''linux'', Endpoint_req = [],
      RequestIP = True, ExitNode_req = False, AllowedIPs_req = []\<rparr>"

text \<open>The default network and a freshly registered peer, for the examples.\<close>

definition example_net :: IPNet where
  "example_net = \<lparr>IP = 0x0A640000, Mask = 0xFFFF0000\<rparr>"

definition example_peer :: "string \<Rightarrow> string \<Rightarrow> string \<Rightarrow> time \<Rightarrow> bool \<Rightarrow> Peer" where
  "example_peer i key ip t on =
     \<lparr>ID = i, PublicKey = key, VirtualIP = ip, Endpoint = [], Hostname = ''host'',
      OS = ''linux'', AllowedIPs = [ip @ ''/32''], ExitNode = False, LastHeartbeat = t,
      Online = on\<rparr>"

(*DEFS-END*)

section \<open>Text of addresses\<close>

lemma digit_cases: "d < 10 \<Longrightarrow> d \<in> {0,1,2,3,4,5,6,7,8,9::nat}"
  by auto

lemma digit_val_digit: "d < 10 \<Longrightarrow> digit_val (digit d) = d"
  by (drule digit_cases) (auto simp: digit_def digit_val_def)

lemma is_digit_digit: "d < 10 \<Longrightarrow> is_digit (digit d)"
  by (drule digit_cases) (auto simp: digit_def is_digit_def)

lemma not_is_digit_dot: "\<not> is_digit CHR ''.''"
  by (simp add: is_digit_def)

lemma parse_digit:
  assumes "d < 10" "\<not> (n = 1 \<and> v = 0)" "v * 10 + d \<le> 255"
  shows "parseIPv4Fields (digit d # cs) v n fs = parseIPv4Fields cs (v * 10 + d) (Suc n) fs"
  using assms by (auto simp: is_digit_digit digit_val_digit)

lemma parse_digits1:
  assumes "x < 10"
  shows "parseIPv4Fields (appendDecimal x @ rest) 0 0 fs = parseIPv4Fields rest x 1 fs"
proof -
  have "appendDecimal x = [digit x]"
    using assms by (simp add: appendDecimal_def)
  then show ?thesis
    using parse_digit[of x 0 0 rest fs] assms by simp
qed

lemma parse_digits2:
  assumes "10 \<le> x" "x < 100"
  shows "parseIPv4Fields (appendDecimal x @ rest) 0 0 fs = parseIPv4Fields rest x 2 fs"
proof -
  have app: "appendDecimal x = [digit (x div 10), digit (x mod 10)]"
    using assms by (simp add: appendDecimal_def)
  have hi: "x div 10 < 10" "x div 10 \<noteq> 0" and lo: "x mod 10 < 10"
    using assms by simp_all
  have val: "x div 10 * 10 + x mod 10 = x" by simp
  have "parseIPv4Fields (digit (x div 10) # digit (x mod 10) # rest) 0 0 fs
        = parseIPv4Fields (digit (x mod 10) # rest) (x div 10) (Suc 0) fs"
    using parse_digit[of "x div 10" 0 0 "digit (x mod 10) # rest" fs] hi by simp
  also have "\<dots> = parseIPv4Fields rest (x div 10 * 10 + x mod 10) (Suc (Suc 0)) fs"
    using hi lo assms by (intro parse_digit) simp_all
  finally show ?thesis unfolding app val by (simp add: numeral_2_eq_2)
qed

lemma parse_digits3:
  assumes "100 \<le> x" "x < 256"
  shows "parseIPv4Fields (appendDecimal x @ rest) 0 0 fs = parseIPv4Fields rest x 3 fs"
proof -
  have app: "appendDecimal x = [digit (x div 100), digit (x div 10 mod 10), digit (x mod 10)]"
    using assms by (simp add: appendDecimal_def)
  have d2: "x div 100 < 10" "x div 100 \<noteq> 0" and d1: "x div 10 mod 10 < 10" and d0: "x mod 10 < 10"
    using assms by simp_all
  have "x div 100 = x div 10 div 10"
    unfolding div_mult2_eq[symmetric] by simp
  then have v1: "x div 100 * 10 + x div 10 mod 10 = x div 10"
    by (simp only: div_mult_mod_eq)
  have v0: "x div 10 * 10 + x mod 10 = x" by simp
  have b1: "x div 100 * 10 + x div 10 mod 10 \<le> 255" unfolding v1 using assms by simp
  have b0: "x div 10 * 10 + x mod 10 \<le> 255" unfolding v0 using assms by simp
  have "parseIPv4Fields (digit (x div 100) # digit (x div 10 mod 10) # digit (x mod 10) # rest) 0 0 fs
        = parseIPv4Fields (digit (x div 10 mod 10) # digit (x mod 10) # rest) (x div 100) (Suc 0) fs"
    using parse_digit[of "x div 100" 0 0 "digit (x div 10 mod 10) # digit (x mod 10) # rest" fs] d2 by simp
  also have "\<dots> = parseIPv4Fields (digit (x mod 10) # rest) (x div 100 * 10 + x div 10 mod 10) (Suc (Suc 0)) fs"
    using d1 d2 b1 by (intro parse_digit) simp_all
  also have "\<dots> = parseIPv4Fields (digit (x mod 10) # rest) (x div 10) (Suc (Suc 0)) fs"
    by (simp only: v1)
  also have "\<dots> = parseIPv4Fields rest (x div 10 * 10 + x mod 10) (Suc (Suc (Suc 0))) fs"
    using d0 b0 by (intro parse_digit) simp_all
  finally show ?thesis unfolding app v0 by (simp add: numeral_3_eq_3)
qed

lemma parse_digits:
  assumes "x < 256"
  shows "\<exists>n. n \<noteq> 0 \<and> parseIPv4Fields (appendDecimal x @ rest) 0 0 fs = parseIPv4Fields rest x n fs"
proof -
  consider "x < 10" | "10 \<le> x" "x < 100" | "100 \<le> x" by linarith
  then show ?thesis
  proof cases
    case 1
    from parse_digits1[OF this] show ?thesis by (intro exI[of _ 1]) simp
  next
    case 2
    from parse_digits2[OF this] show ?thesis by (intro exI[of _ 2]) simp
  next
    case 3
    from parse_digits3[OF this assms] show ?thesis by (intro exI[of _ 3]) simp
  qed
qed

lemma parse_field_dot:
  assumes "x < 256" "r \<noteq> []" "length fs < 3"
  shows "parseIPv4Fields (appendDecimal x @ CHR ''.'' # r) 0 0 fs = parseIPv4Fields r 0 0 (fs @ [x])"
proof -
  obtain n where "n \<noteq> 0" "parseIPv4Fields (appendDecimal x @ CHR ''.'' # r) 0 0 fs = parseIPv4Fields (CHR ''.'' # r) x n fs"
    using parse_digits[OF assms(1)] by blast
  then show ?thesis using assms by (simp add: not_is_digit_dot)
qed

lemma parse_field_end:
  assumes "x < 256" "length fs = 3"
  shows "parseIPv4Fields (appendDecimal x) 0 0 fs = Some (fs @ [x])"
proof -
  obtain n where "parseIPv4Fields (appendDecimal x @ []) 0 0 fs = parseIPv4Fields [] x n fs"
    using parse_digits[OF assms(1)] by blast
  then show ?thesis using assms by simp
qed

lemma appendDecimal_nonempty: "appendDecimal x \<noteq> []"
  by (simp add: appendDecimal_def)

lemma octet_less: "octet w i < 256"
  by (simp add: octet_def)

lemma from_octets_octet: "from_octets (octet w 0) (octet w 1) (octet w 2) (octet w 3) = w"
proof -
  define n where "n = unat w"
  have "n < 2 ^ 32" using unsigned_less[of w] by (simp add: n_def)
  then have top: "n div 16777216 mod 256 = n div 16777216" by simp
  have e2: "n div 65536 = n div 256 div 256" 
    unfolding div_mult2_eq[symmetric] by simp
  have e3: "n div 16777216 = n div 256 div 256 div 256"
    unfolding div_mult2_eq[symmetric] by simp
  have "((n div 16777216 mod 256 * 256 + n div 65536 mod 256) * 256 + n div 256 mod 256) * 256 + n mod 256
      = ((n div 256 div 256 div 256 * 256 + n div 256 div 256 mod 256) * 256 + n div 256 mod 256) * 256 + n mod 256"
    using top by (simp only: e2 e3)
  also have "\<dots> = n" by (simp only: div_mult_mod_eq)
  finally have eq: "((n div 16777216 mod 256 * 256 + n div 65536 mod 256) * 256 + n div 256 mod 256) * 256 + n mod 256 = n" .
  have o: "octet w 0 = n div 16777216 mod 256" "octet w 1 = n div 65536 mod 256"
     "octet w 2 = n div 256 mod 256" "octet w 3 = n mod 256"
    by (simp_all add: octet_def n_def)
  show ?thesis unfolding from_octets_def o eq by (simp add: n_def)
qed

lemma parseIPv4Fields_String:
  "parseIPv4Fields (String w) 0 0 [] = Some [octet w 0, octet w 1, octet w 2, octet w 3]"
  unfolding String_def
  by (simp add: parse_field_dot parse_field_end octet_less appendDecimal_nonempty)

lemma parseIPv4_String: "parseIPv4 (String w) = Some w"
  using parseIPv4Fields_String[of w] from_octets_octet[of w] by (simp add: parseIPv4_def)

lemma digit_plain:
  assumes "d < 10"
  shows "digit d \<noteq> CHR ''.'' \<and> digit d \<noteq> CHR '':'' \<and> digit d \<noteq> CHR ''%''"
  using digit_cases[OF assms] by (auto simp: digit_def)

lemma appendDecimal_plain:
  assumes "x < 256" "c \<in> set (appendDecimal x)"
  shows "c \<noteq> CHR ''.'' \<and> c \<noteq> CHR '':'' \<and> c \<noteq> CHR ''%''"
proof -
  have "x div 100 < 10" "x div 10 mod 10 < 10" "x mod 10 < 10" using assms(1) by simp_all
  from this[THEN digit_plain] assms(2) show ?thesis
    by (auto simp: appendDecimal_def split: if_splits)
qed

lemma String_first_dot:
  "\<exists>r. dropWhile (\<lambda>c. c \<noteq> CHR ''.'' \<and> c \<noteq> CHR '':'' \<and> c \<noteq> CHR ''%'') (String w) = CHR ''.'' # r"
proof -
  let ?P = "\<lambda>c. c \<noteq> CHR ''.'' \<and> c \<noteq> CHR '':'' \<and> c \<noteq> CHR ''%''"
  let ?r = "appendDecimal (octet w 1) @ ''.'' @ appendDecimal (octet w 2) @ ''.'' @
     appendDecimal (octet w 3)"
  have "dropWhile ?P (appendDecimal (octet w 0) @ CHR ''.'' # ?r) = dropWhile ?P (CHR ''.'' # ?r)"
    by (rule dropWhile_append2) (rule appendDecimal_plain[OF octet_less])
  then have "dropWhile ?P (String w) = CHR ''.'' # ?r" by (simp add: String_def)
  then show ?thesis ..
qed

lemma ParseIP_String:
  "ParseIP (String w) = Some (v4InV6Prefix @ [octet w 0, octet w 1, octet w 2, octet w 3])"
proof -
  from String_first_dot[of w] obtain r where
    "dropWhile (\<lambda>c. c \<noteq> CHR ''.'' \<and> c \<noteq> CHR '':'' \<and> c \<noteq> CHR ''%'') (String w) = CHR ''.'' # r" ..
  then show ?thesis by (simp add: ParseIP_def parseIPv4Fields_String)
qed

lemma To4_v4InV6: "To4 (v4InV6Prefix @ [a, b, c, d]) = Some (from_octets a b c d)"
  by (simp add: To4_def v4InV6Prefix_def)

lemma To4_octets: "To4 (v4InV6Prefix @ [octet w 0, octet w 1, octet w 2, octet w 3]) = Some w"
  unfolding To4_v4InV6 from_octets_octet ..

lemma To4_ParseIP_String: "Option.bind (ParseIP (String w)) To4 = Some w"
  unfolding ParseIP_String by (simp only: bind.bind_lunit To4_octets)

lemma replicate_num: "replicate (numeral k) x = x # replicate (pred_numeral k) x"
  by (simp add: numeral_eq_Suc)

lemma String_inj: "String v = String w \<Longrightarrow> v = w"
  by (metis parseIPv4_String option.inject)

section \<open>Networks and offsets\<close>

lemma and_not_mask_self: "(x::32 word) AND mask h = 0 \<Longrightarrow> x AND NOT (mask h) = x"
  by (metis (no_types, lifting) bit.conj_disj_distrib bit.de_Morgan_conj
    or.right_neutral word_and_not word_not_not)

lemma sub_and_not_mask: "(c::32 word) - (c AND NOT (mask h)) = c AND mask h"
  by (metis (no_types, lifting) bit.de_Morgan_conj bit_and_iff
     disjunctive_diff word_and_not word_ao_absorbs(8) word_ao_dist2
     word_not_not)

lemma unat_and_mask_less: "unat ((c::32 word) AND mask h) < 2 ^ h"
  by (metis and.right_idem take_bit_eq_mask take_bit_nat_eq_self_iff
    unsigned_take_bit_eq)

lemma small_and_mask: "unat (k::32 word) < 2 ^ h \<Longrightarrow> k AND mask h = k"
  by (metis mask_eq_iff of_nat_less_numeral_power_cancel_iff of_nat_unat)

lemma small_and_not_mask: "unat (k::32 word) < 2 ^ h \<Longrightarrow> k AND NOT (mask h) = 0"
proof -
  assume "unat k < 2 ^ h"
  then have "k AND mask h = k" by (rule small_and_mask)
  then have "k AND NOT (mask h) = (k AND mask h) AND NOT (mask h)" by simp
  also have "\<dots> = 0" by (simp add: and.assoc)
  finally show ?thesis .
qed

lemma offset_imp_contains: 
  assumes "(x::32 word) AND mask h = 0" "unat (c - x) < 2 ^ h"
  shows "x = c AND NOT (mask h)"
proof -
  define k where "k = c - x"
  have c: "c = x + k" by (simp add: k_def)
  have k1: "k AND mask h = k" using assms(2) unfolding k_def by (rule small_and_mask)
  have k2: "k AND NOT (mask h) = 0" using assms(2) unfolding k_def by (rule small_and_not_mask)
  have "x AND k = x AND (k AND mask h)" using k1 by simp
  also have "\<dots> = (x AND mask h) AND k" by (simp add: ac_simps)
  also have "\<dots> = 0" using assms(1) by simp
  finally have "x + k = x OR k" by (rule disjunctive_add_eq_or)
  then have "c AND NOT (mask h) = (x AND NOT (mask h)) OR (k AND NOT (mask h))"
    by (simp add: c bit.conj_disj_distrib2)
  then show ?thesis using k2 and_not_mask_self[OF assms(1)] by simp
qed

lemma unat_mask32: 
  assumes "h \<le> 32" shows "unat (mask h :: 32 word) = 2 ^ h - 1"
proof -
  have "min LENGTH(32) h = h" using assms by simp
  then have "uint (mask h :: 32 word) = mask h"
    using uint_mask_eq[where 'a=32, of h] by (simp only:)
  then have "nat (uint (mask h :: 32 word)) = nat (mask h)" by (rule arg_cong)
  then have "unat (mask h :: 32 word) = mask h"
    by (simp only: nat_mask_eq nat_uint_eq)
  then show ?thesis by (simp only: mask_eq_exp_minus_1)
qed

lemma offset_inc:
  assumes "unat ((c::32 word) - x) < 2 ^ 32 - 1" 
  shows "unat (c + 1 - x) = unat (c - x) + 1"
proof -
  have "unat (c - x) + unat (1 :: 32 word) < 2 ^ LENGTH(32)"
    using assms by simp
  then have "unat ((c - x) + 1) = unat (c - x) + unat (1 :: 32 word)"
    by (simp only: unat_add_lem)
  moreover have "c + 1 - x = (c - x) + 1" by (simp add: algebra_simps)
  ultimately show ?thesis by (simp only: unat_1)
qed

lemma unat_max32: "unat (- 1 :: 32 word) = 2 ^ 32 - 1"
  by (simp add: unsigned_minus_1_eq_mask mask_eq_exp_minus_1)

lemma not_mask_eq_0:
  assumes "h \<le> 32" 
  shows "(NOT (mask h) :: 32 word) = 0 \<longleftrightarrow> h = 32"
proof -
  have "(NOT (mask h) :: 32 word) = 0 \<longleftrightarrow> (mask h :: 32 word) = - 1"
    by (metis bit.compl_zero bit.double_compl)
  also have "\<dots> \<longleftrightarrow> unat (mask h :: 32 word) = unat (- 1 :: 32 word)"
    by (simp only: word_unat_eq_iff)
  also have "\<dots> \<longleftrightarrow> (2::nat) ^ h - 1 = 2 ^ 32 - 1"
    using assms by (simp only: unat_mask32 unat_max32)
  also have "\<dots> \<longleftrightarrow> (2::nat) ^ h = 2 ^ 32"
    by (metis One_nat_def Suc_pred zero_less_numeral zero_less_power)
  also have "\<dots> \<longleftrightarrow> h = 32" by (rule power_inject_exp) simp
  finally show ?thesis .
qed
lemma Contains_iff:
  assumes "net_of n h"
  shows "Contains n c \<longleftrightarrow> unat (c - IP n) < 2 ^ h"
proof -
  have m: "Mask n = NOT (mask h)" and z: "IP n AND mask h = 0"
    using assms by (simp_all add: net_of_def)
  have self: "IP n AND Mask n = IP n"
    unfolding m using z by (rule and_not_mask_self)
  show ?thesis
  proof
    assume "Contains n c"
    then have "IP n = c AND NOT (mask h)"
      unfolding Contains_def self by (simp only: m)
    then have "c - IP n = c AND mask h"
      using sub_and_not_mask[of c h] by simp
    then show "unat (c - IP n) < 2 ^ h"
      using unat_and_mask_less[of c h] by simp
  next
    assume "unat (c - IP n) < 2 ^ h"
    with z have "IP n = c AND NOT (mask h)" by (rule offset_imp_contains)
    then show "Contains n c"
      unfolding Contains_def self by (simp only: m)
  qed
qed

lemma broadcast_iff:
  assumes "net_of n h"
  shows "c = (IP n OR NOT (Mask n)) \<longleftrightarrow> unat (c - IP n) = 2 ^ h - 1"
proof -
  have "IP n OR NOT (Mask n) = IP n + mask h"
    using assms by (simp add: net_of_def disjunctive_add_eq_or)
  then have "c = (IP n OR NOT (Mask n)) \<longleftrightarrow> c - IP n = mask h"
    by (metis add_diff_cancel_left' diff_add_cancel add.commute)
  also have "\<dots> \<longleftrightarrow> unat (c - IP n) = unat (mask h :: 32 word)"
    by (simp add: word_unat_eq_iff)
  finally show ?thesis using assms by (simp add: unat_mask32 net_of_def)
qed

section \<open>Reserving an address\<close>

lemma Contains_network: "Contains n (IP n)"
  by (simp add: Contains_def)

lemma Contains_broadcast: "Contains n (IP n OR NOT (Mask n))"
  by (simp add: Contains_def bit.conj_disj_distrib2)

lemma ContainsIP_String: "ContainsIP n (v4InV6Prefix @ [octet w 0, octet w 1, octet w 2, octet w 3]) = Contains n w"
  unfolding ContainsIP_def To4_octets by simp

lemma ParseIP_examples:
  "ParseIP ''::ffff:10.100.0.2'' = Some [0, 0, 0, 0, 0, 0, 0, 0, 0, 0, 255, 255, 10, 100, 0, 2]"
  "ParseIP ''::1'' = Some [0, 0, 0, 0, 0, 0, 0, 0, 0, 0, 0, 0, 0, 0, 0, 1]"
  "ParseIP ''10.100.0.2'' = Some [0, 0, 0, 0, 0, 0, 0, 0, 0, 0, 255, 255, 10, 100, 0, 2]"
  "ParseIP ''10.100.0.0'' = Some [0, 0, 0, 0, 0, 0, 0, 0, 0, 0, 255, 255, 10, 100, 0, 0]"
  "ParseIP ''10.100.0.256'' = None"
  by (simp_all add: ParseIP_def parseIPv6_def parseIPv6Loop.simps is_hex_def hex_val_def
      is_digit_def digit_val_def v4InV6Prefix_def replicate_num)

lemma To4_examples:
  "To4 [0, 0, 0, 0, 0, 0, 0, 0, 0, 0, 255, 255, 10, 100, 0, 2] = Some 0x0A640002"
  "To4 [0, 0, 0, 0, 0, 0, 0, 0, 0, 0, 255, 255, 10, 100, 0, 0] = Some 0x0A640000"
  "To4 [0, 0, 0, 0, 0, 0, 0, 0, 0, 0, 0, 0, 0, 0, 0, 1] = None"
  by (simp_all add: To4_def v4InV6Prefix_def from_octets_def)

text \<open>
  The texts \<open>::ffff:10.100.0.2\<close> and \<open>10.100.0.2\<close> parse to the same bytes, and each is
  reserved under its own text; \<open>::1\<close> parses and is outside every IPv4 network.
\<close>

lemma AllocateSpecificIP_examples:
  "AllocateSpecificIP \<lparr>network = \<lparr>IP = 0x0A640000, Mask = 0xFFFF0000\<rparr>, allocated = A, nextIP = c\<rparr> ''::1'' =
     (Some NotInNetwork, \<lparr>network = \<lparr>IP = 0x0A640000, Mask = 0xFFFF0000\<rparr>, allocated = A, nextIP = c\<rparr>)"
  "AllocateSpecificIP \<lparr>network = \<lparr>IP = 0x0A640000, Mask = 0xFFFF0000\<rparr>, allocated = A, nextIP = c\<rparr> ''10.100.0.256'' =
     (Some InvalidIP, \<lparr>network = \<lparr>IP = 0x0A640000, Mask = 0xFFFF0000\<rparr>, allocated = A, nextIP = c\<rparr>)"
  "AllocateSpecificIP \<lparr>network = \<lparr>IP = 0x0A640000, Mask = 0xFFFF0000\<rparr>, allocated = {''10.100.0.2''}, nextIP = c\<rparr>
       ''::ffff:10.100.0.2'' =
     (None, \<lparr>network = \<lparr>IP = 0x0A640000, Mask = 0xFFFF0000\<rparr>,
            allocated = {''::ffff:10.100.0.2'', ''10.100.0.2''}, nextIP = c\<rparr>)"
  by (simp_all add: AllocateSpecificIP_def ParseIP_examples ContainsIP_def To4_def
      v4InV6Prefix_def from_octets_def Contains_def)

text \<open>
  Claim C10. \<^verbatim>\<open>AllocateSpecificIP\<close> succeeds for every text that \<^verbatim>\<open>net.ParseIP\<close> reads, in
  dotted-decimal or in IPv6 form, to an address that the network contains and that is not
  in the allocated set; afterwards \<^verbatim>\<open>IsAllocated\<close> answers true for that text, and nothing
  else of the allocator has changed. The texts of the network address and of the broadcast
  address parse to these addresses, which the network contains, so they are not excluded.
\<close>

theorem AllocateSpecificIP_reserves:
  "(\<forall>a ip parsedIP.
      ParseIP ip = Some parsedIP \<and> ContainsIP (network a) parsedIP \<and> \<not> IsAllocated a ip \<longrightarrow>
      fst (AllocateSpecificIP a ip) = None \<and>
      IsAllocated (snd (AllocateSpecificIP a ip)) ip \<and>
      snd (AllocateSpecificIP a ip) = a\<lparr>allocated := insert ip (allocated a)\<rparr>) \<and>
   (\<forall>n. \<exists>x y. ParseIP (String (IP n)) = Some x \<and> To4 x = Some (IP n) \<and> ContainsIP n x \<and>
        ParseIP (String (IP n OR NOT (Mask n))) = Some y \<and>
        To4 y = Some (IP n OR NOT (Mask n)) \<and> ContainsIP n y)"
proof (intro conjI allI impI)
  fix a ip parsedIP
  assume "ParseIP ip = Some parsedIP \<and> ContainsIP (network a) parsedIP \<and> \<not> IsAllocated a ip"
  then show "fst (AllocateSpecificIP a ip) = None"
    "IsAllocated (snd (AllocateSpecificIP a ip)) ip"
    "snd (AllocateSpecificIP a ip) = a\<lparr>allocated := insert ip (allocated a)\<rparr>"
    by (simp_all add: AllocateSpecificIP_def IsAllocated_def)
next
  fix n :: IPNet
  let ?x = "v4InV6Prefix @ [octet (IP n) 0, octet (IP n) 1, octet (IP n) 2, octet (IP n) 3]"
  let ?b = "IP n OR NOT (Mask n)"
  let ?y = "v4InV6Prefix @ [octet ?b 0, octet ?b 1, octet ?b 2, octet ?b 3]"
  have "ParseIP (String (IP n)) = Some ?x" by (rule ParseIP_String)
  moreover have "To4 ?x = Some (IP n)" by (rule To4_octets)
  moreover have "ContainsIP n ?x" unfolding ContainsIP_String by (rule Contains_network)
  moreover have "ParseIP (String ?b) = Some ?y" by (rule ParseIP_String)
  moreover have "To4 ?y = Some ?b" by (rule To4_octets)
  moreover have "ContainsIP n ?y" unfolding ContainsIP_String by (rule Contains_broadcast)
  ultimately show "\<exists>x y. ParseIP (String (IP n)) = Some x \<and> To4 x = Some (IP n) \<and> ContainsIP n x \<and>
        ParseIP (String (IP n OR NOT (Mask n))) = Some y \<and>
        To4 y = Some (IP n OR NOT (Mask n)) \<and> ContainsIP n y"
    by blast
qed

theorem AllocateSpecificIP_reserves_witness:
  "ParseIP ''::ffff:10.100.0.0'' = Some [0, 0, 0, 0, 0, 0, 0, 0, 0, 0, 255, 255, 10, 100, 0, 0] \<and>
   ContainsIP \<lparr>IP = 0x0A640000, Mask = 0xFFFFFFFC\<rparr>
     [0, 0, 0, 0, 0, 0, 0, 0, 0, 0, 255, 255, 10, 100, 0, 0] \<and>
   \<not> IsAllocated \<lparr>network = \<lparr>IP = 0x0A640000, Mask = 0xFFFFFFFC\<rparr>, allocated = {''10.100.0.1''}, nextIP = 0x0A640002\<rparr> ''::ffff:10.100.0.0'' \<and>
   fst (AllocateSpecificIP \<lparr>network = \<lparr>IP = 0x0A640000, Mask = 0xFFFFFFFC\<rparr>, allocated = {''10.100.0.1''}, nextIP = 0x0A640002\<rparr> ''::ffff:10.100.0.0'') = None \<and>
   IsAllocated (snd (AllocateSpecificIP \<lparr>network = \<lparr>IP = 0x0A640000, Mask = 0xFFFFFFFC\<rparr>, allocated = {''10.100.0.1''}, nextIP = 0x0A640002\<rparr> ''::ffff:10.100.0.0'')) ''::ffff:10.100.0.0''"
proof -
  let ?a = "\<lparr>network = \<lparr>IP = 0x0A640000, Mask = 0xFFFFFFFC\<rparr>, allocated = {''10.100.0.1''}, nextIP = 0x0A640002 :: ip4\<rparr>"
  let ?x = "[0, 0, 0, 0, 0, 0, 0, 0, 0, 0, 255, 255, 10, 100, 0, 0] :: nat list"
  have p: "ParseIP ''::ffff:10.100.0.0'' = Some ?x"
    by (simp add: ParseIP_def parseIPv6_def parseIPv6Loop.simps is_hex_def hex_val_def
        is_digit_def digit_val_def replicate_num)
  have c: "ContainsIP (network ?a) ?x"
    by (simp add: ContainsIP_def To4_def v4InV6Prefix_def from_octets_def Contains_def)
  have f: "\<not> IsAllocated ?a ''::ffff:10.100.0.0''"
    by (simp add: IsAllocated_def)
  from AllocateSpecificIP_reserves p c f
  have "fst (AllocateSpecificIP ?a ''::ffff:10.100.0.0'') = None \<and>
        IsAllocated (snd (AllocateSpecificIP ?a ''::ffff:10.100.0.0'')) ''::ffff:10.100.0.0''"
    by blast
  with p c f show ?thesis by simp
qed

section \<open>The liveness sweeper\<close>

lemma Sub_gt_timeout: "Sub now t > HeartbeatTimeout \<longleftrightarrow> now - t > 120 * 1000000000"
  by (auto simp: Sub_def HeartbeatTimeout_def)

lemma cleanupLoop_peers:
  "fst (cleanupLoop now ps st) =
     map (\<lambda>(k, p). (k, if Online p \<and> now - LastHeartbeat p > 120 * 1000000000
                         then p\<lparr>Online := False\<rparr> else p)) ps"
  by (induction ps arbitrary: st) (auto simp: Sub_gt_timeout case_prod_beta)

text \<open>
  Claim C7. One pass of the sweeper at clock reading \<open>now\<close> maps every peer to itself,
  except that a peer that is online and whose last heartbeat is more than 120 seconds
  (in nanoseconds) before \<open>now\<close> gets \<open>Online = False\<close>. No other field of a peer and
  nothing else of the registry changes, no peer appears or disappears, and no peer's
  \<open>Online\<close> goes from false to true.
\<close>

theorem cleanupPass_sweeps:
  "peers (cleanupPass s now) =
     map (\<lambda>(k, p). (k, if Online p \<and> now - LastHeartbeat p > 120 * 1000000000
                         then p\<lparr>Online := False\<rparr> else p)) (peers s) \<and>
   ipAllocator (cleanupPass s now) = ipAllocator s \<and>
   peersByKey (cleanupPass s now) = peersByKey s \<and>
   publicKey (cleanupPass s now) = publicKey s"
  using cleanupLoop_peers[of now "peers s" "store s"]
  by (simp add: cleanupPass_def case_prod_beta)

section \<open>What AllocateIP returns\<close>

lemma offset_cursor: "IP n + of_nat (offset n c) = c"
  by (simp add: offset_def)

lemma isBroadcast_String: "isBroadcast (ParseIP (String c)) n \<longleftrightarrow> c = (IP n OR NOT (Mask n))"
  unfolding isBroadcast_def ParseIP_String option.case To4_octets by auto

lemma AllocateIP_outside:
  "\<not> Contains (network a) (nextIP a) \<Longrightarrow> AllocateIP a = Some (Inl NoMoreIPs, a)"
  by (subst AllocateIP.simps) simp

lemma AllocateIP_skip_broadcast:
  "Contains (network a) (nextIP a) \<Longrightarrow> nextIP a = (IP (network a) OR NOT (Mask (network a))) \<Longrightarrow>
   AllocateIP a = AllocateIP (a\<lparr>nextIP := nextIP a + 1\<rparr>)"
  by (subst AllocateIP.simps) (simp add: isBroadcast_String incrementIP_def)

lemma AllocateIP_skip_allocated:
  "Contains (network a) (nextIP a) \<Longrightarrow> String (nextIP a) \<in> allocated a \<Longrightarrow>
   AllocateIP a = AllocateIP (a\<lparr>nextIP := nextIP a + 1\<rparr>)"
  by (subst AllocateIP.simps) (simp add: isBroadcast_String incrementIP_def)

lemma AllocateIP_free:
  "Contains (network a) (nextIP a) \<Longrightarrow> nextIP a \<noteq> (IP (network a) OR NOT (Mask (network a))) \<Longrightarrow>
   String (nextIP a) \<notin> allocated a \<Longrightarrow>
   AllocateIP a = Some (Inr (String (nextIP a)),
       a\<lparr>nextIP := nextIP a + 1, allocated := insert (String (nextIP a)) (allocated a)\<rparr>)"
  by (subst AllocateIP.simps) (simp add: isBroadcast_String incrementIP_def)

lemma range_extend:
  "\<forall>j. Suc k \<le> j \<and> j < K \<longrightarrow> P j \<Longrightarrow> k < K \<longrightarrow> P k \<Longrightarrow> \<forall>j. k \<le> j \<and> j < K \<longrightarrow> P j"
  by (metis Suc_leI le_neq_implies_less)

lemma AllocateIP_spec:
  assumes "net_of (network a) h" "h < 32"
    and "offset (network a) (nextIP a) \<le> 2 ^ h"
  shows "\<exists>r a'. AllocateIP a = Some (r, a') \<and> alloc_post h a r a'"
  using assms
proof (induction "2 ^ h - offset (network a) (nextIP a)" arbitrary: a rule: less_induct)
  case less
  let ?n = "network a" and ?c = "nextIP a"
  let ?k = "offset ?n ?c"
  note net = \<open>net_of ?n h\<close>
  have pow: "(2::nat) ^ h < 2 ^ 32 - 1"
  proof -
    have "(2::nat) ^ h \<le> 2 ^ 31" using less.prems(2) by (intro power_increasing) simp_all
    then show ?thesis by simp
  qed
  show ?case
  proof (cases "?k = 2 ^ h")
    case True
    then have "\<not> Contains ?n ?c" using Contains_iff[OF net, of ?c] by (simp add: offset_def)
    then have "AllocateIP a = Some (Inl NoMoreIPs, a)" by (rule AllocateIP_outside)
    moreover have "alloc_post h a (Inl NoMoreIPs) a"
      using True by (auto simp: alloc_post_def)
    ultimately show ?thesis by blast
  next
    case False
    then have klt: "?k < 2 ^ h" using less.prems(3) by simp
    then have cont: "Contains ?n ?c" using Contains_iff[OF net, of ?c] by (simp add: offset_def)
    let ?a1 = "a\<lparr>nextIP := ?c + 1\<rparr>"
    have off1: "offset ?n (?c + 1) = ?k + 1"
      unfolding offset_def using klt pow by (intro offset_inc) (simp add: offset_def)
    have ih: "\<exists>r a'. AllocateIP ?a1 = Some (r, a') \<and> alloc_post h ?a1 r a'"
      using klt off1 net less.prems(2) by (intro less.hyps) simp_all
    have bc: "?c = (IP ?n OR NOT (Mask ?n)) \<longleftrightarrow> ?k = 2 ^ h - 1"
      using broadcast_iff[OF net, of ?c] by (simp add: offset_def)
    have step: "alloc_post h a r a'" if post: "alloc_post h ?a1 r a'"
      and here: "?k < 2 ^ h - 1 \<longrightarrow> String ?c \<in> allocated a" for r a'
    proof -
      have cur: "IP ?n + of_nat ?k = ?c" by (rule offset_cursor)
      have base: "network a' = network a" "?k \<le> offset ?n (nextIP a')"
        "offset ?n (nextIP a') \<le> 2 ^ h"
        using post off1 by (simp_all add: alloc_post_def)
      show ?thesis
      proof (cases r)
        case (Inl e)
        with post off1 have e: "e = NoMoreIPs" "allocated a' = allocated a"
          "offset ?n (nextIP a') = 2 ^ h"
          and up: "\<forall>j. Suc ?k \<le> j \<and> j < 2 ^ h - 1 \<longrightarrow> String (IP ?n + of_nat j) \<in> allocated a"
          by (simp_all add: alloc_post_def)
        have "?k < 2 ^ h - 1 \<longrightarrow> String (IP ?n + of_nat ?k) \<in> allocated a"
          using here cur by simp
        with up have "\<forall>j. ?k \<le> j \<and> j < 2 ^ h - 1 \<longrightarrow> String (IP ?n + of_nat j) \<in> allocated a"
          by (rule range_extend)
        then show ?thesis using Inl e base by (simp add: alloc_post_def)
      next
        case (Inr ip)
        with post off1 obtain k where k: "Suc ?k \<le> k" "k < 2 ^ h - 1"
          "ip = String (IP ?n + of_nat k)" "ip \<notin> allocated a"
          "allocated a' = insert ip (allocated a)" "offset ?n (nextIP a') = k + 1"
          and up: "\<forall>j. Suc ?k \<le> j \<and> j < k \<longrightarrow> String (IP ?n + of_nat j) \<in> allocated a"
          by (auto simp: alloc_post_def)
        have "?k < k \<longrightarrow> String (IP ?n + of_nat ?k) \<in> allocated a"
          using here cur k(2) by simp
        with up have "\<forall>j. ?k \<le> j \<and> j < k \<longrightarrow> String (IP ?n + of_nat j) \<in> allocated a"
          by (rule range_extend)
        moreover have "?k \<le> k" using k(1) by simp
        ultimately show ?thesis using Inr k base
          unfolding alloc_post_def by (simp del: of_nat_Suc)
      qed
    qed
    show ?thesis
    proof (cases "?c = (IP ?n OR NOT (Mask ?n))")
      case True
      then have "AllocateIP a = AllocateIP ?a1" using cont by (intro AllocateIP_skip_broadcast)
      moreover have "\<not> ?k < 2 ^ h - 1" using True bc by simp
      ultimately show ?thesis using ih step by metis
    next
      case nb: False
      show ?thesis
      proof (cases "String ?c \<in> allocated a")
        case True
        then have "AllocateIP a = AllocateIP ?a1" using cont by (intro AllocateIP_skip_allocated)
        then show ?thesis using ih step True by metis
      next
        case free: False
        let ?a' = "a\<lparr>nextIP := ?c + 1, allocated := insert (String ?c) (allocated a)\<rparr>"
        have "AllocateIP a = Some (Inr (String ?c), ?a')"
          using cont nb free by (rule AllocateIP_free)
        moreover have "alloc_post h a (Inr (String ?c)) ?a'"
        proof -
          have k1: "?k < 2 ^ h - 1" using klt nb bc by linarith
          have k2: "String ?c = String (IP ?n + of_nat ?k)" by (simp only: offset_cursor)
          have "\<exists>k. ?k \<le> k \<and> k < 2 ^ h - 1 \<and> String ?c = String (IP ?n + of_nat k) \<and>
                  String ?c \<notin> allocated a \<and> offset ?n (?c + 1) = k + 1 \<and>
                  (\<forall>j. ?k \<le> j \<and> j < k \<longrightarrow> String (IP ?n + of_nat j) \<in> allocated a)"
            using k1 k2 free off1 by (intro exI[of _ ?k]) auto
          then show ?thesis
            unfolding alloc_post_def using off1 klt by (auto simp: offset_cursor)
        qed
        ultimately show ?thesis by blast
      qed
    qed
  qed
qed

section \<open>The allocator over runs of calls\<close>

lemma ParseCIDR_net_of:
  assumes "ParseCIDR s = Some n"
  shows "\<exists>h. net_of n h"
proof -
  from assms obtain ip ones where n: "n = \<lparr>IP = ip AND CIDRMask ones, Mask = CIDRMask ones\<rparr>"
    and "ones \<le> 32"
    by (auto simp: ParseCIDR_def Let_def split: if_splits option.splits)
  have "net_of n (32 - ones)"
    by (simp add: net_of_def n CIDRMask_def and.assoc)
  then show ?thesis ..
qed

lemma net_of_Mask: "net_of n h \<Longrightarrow> Mask n \<noteq> 0 \<longleftrightarrow> h < 32"
  using not_mask_eq_0[of h] by (auto simp: net_of_def)

lemma NewIPAllocator_inv:
  assumes "NewIPAllocator cidr = Inr a0" "Mask (network a0) \<noteq> 0"
  shows "\<exists>h. ipam_inv h a0"
proof -
  from assms(1) obtain n where n: "ParseCIDR cidr = Some n"
    and a0: "a0 = \<lparr>network = n, allocated = {}, nextIP = IP n + 1\<rparr>"
    by (auto simp: NewIPAllocator_def incrementIP_def split: option.splits)
  from ParseCIDR_net_of[OF n] obtain h where h: "net_of n h" ..
  with assms(2) a0 have "h < 32" using net_of_Mask by simp
  moreover have "offset n (IP n + 1) = 1" by (simp add: offset_def)
  ultimately have "ipam_inv h a0" using h a0 by (simp add: ipam_inv_def)
  then show ?thesis ..
qed

lemma AllocateIP_inv:
  assumes "ipam_inv h a"
  shows "\<exists>r a'. AllocateIP a = Some (r, a') \<and> alloc_post h a r a' \<and> ipam_inv h a'"
proof -
  from assms have "net_of (network a) h" "h < 32" "offset (network a) (nextIP a) \<le> 2 ^ h"
    by (simp_all add: ipam_inv_def)
  from AllocateIP_spec[OF this] obtain r a' where
    r: "AllocateIP a = Some (r, a')" "alloc_post h a r a'" by blast
  then have "ipam_inv h a'" using assms by (auto simp: ipam_inv_def alloc_post_def)
  with r show ?thesis by blast
qed

lemma AllocateSpecificIP_frame:
  "network (snd (AllocateSpecificIP a ip)) = network a"
  "nextIP (snd (AllocateSpecificIP a ip)) = nextIP a"
  by (simp_all add: AllocateSpecificIP_def split: option.splits)

lemma ipam_step_inv:
  assumes "ipam_inv h a"
  shows "\<exists>a'. ipam_step x a = Some a' \<and> ipam_inv h a' \<and> network a' = network a"
proof (cases x)
  case OpAllocate
  then show ?thesis using AllocateIP_inv[OF assms] by (auto simp: alloc_post_def)
next
  case (OpReserve ip)
  then show ?thesis using assms by (simp add: ipam_inv_def AllocateSpecificIP_frame)
next
  case (OpRelease ip)
  then show ?thesis using assms by (simp add: ipam_inv_def ReleaseIP_def)
qed

lemma ipam_run_inv:
  assumes "ipam_inv h a"
  shows "\<exists>a'. ipam_run xs a = Some a' \<and> ipam_inv h a' \<and> network a' = network a"
  using assms
proof (induction xs arbitrary: a)
  case Nil
  then show ?case by simp
next
  case (Cons x xs)
  from ipam_step_inv[OF Cons.prems, of x] obtain a1 where
    a1: "ipam_step x a = Some a1" "ipam_inv h a1" "network a1 = network a" by blast
  from Cons.IH[OF a1(2)] a1 show ?case by auto
qed

lemma unat_of_nat32: "k < 2 ^ 32 \<Longrightarrow> unat (of_nat k :: 32 word) = k"
  by (simp add: unsigned_of_nat take_bit_nat_eq_self)

lemma alloc_post_usable:
  assumes "ipam_inv h a" "alloc_post h a (Inr ip) a'"
  shows "\<exists>w. ip = String w \<and> Contains (network a) w \<and> w \<noteq> IP (network a) \<and>
             w \<noteq> (IP (network a) OR NOT (Mask (network a)))"
proof -
  let ?n = "network a"
  from assms(1) have net: "net_of ?n h" and h: "h < 32" and one: "1 \<le> offset ?n (nextIP a)"
    by (simp_all add: ipam_inv_def)
  from assms(2) obtain k where k: "offset ?n (nextIP a) \<le> k" "k < 2 ^ h - 1"
    "ip = String (IP ?n + of_nat k)"
    by (auto simp: alloc_post_def)
  have "(2::nat) ^ h \<le> 2 ^ 32" using h by (intro power_increasing) simp_all
  with k(2) have "k < 2 ^ 32" by simp
  then have off: "unat ((IP ?n + of_nat k) - IP ?n) = k" by (simp add: unat_of_nat32)
  have "Contains ?n (IP ?n + of_nat k)"
    using Contains_iff[OF net, of "IP ?n + of_nat k"] off k(2) by simp
  moreover have "IP ?n + of_nat k \<noteq> IP ?n"
    using off k(1) one by auto
  moreover have "IP ?n + of_nat k \<noteq> (IP ?n OR NOT (Mask ?n))"
    using broadcast_iff[OF net, of "IP ?n + of_nat k"] off k(2) by simp
  ultimately show ?thesis using k(3) by blast
qed

section \<open>Allocation order and the excluded addresses\<close>

lemma String_examples:
  "String 0x0A640001 = ''10.100.0.1''" "String 0x0A640002 = ''10.100.0.2''"
  "String 0x0A640003 = ''10.100.0.3''" "String 0 = ''0.0.0.0''"
  by (simp_all add: String_def appendDecimal_def octet_def digit_def)

lemma New_default:
  "NewIPAllocator ''10.100.0.0/16'' =
     Inr \<lparr>network = \<lparr>IP = 0x0A640000, Mask = 0xFFFF0000\<rparr>, allocated = {}, nextIP = 0x0A640001\<rparr>"
  by (simp add: NewIPAllocator_def ParseCIDR_def parseIPv4_def is_digit_def digit_val_def
      from_octets_def CIDRMask_def mask_eq_exp_minus_1 incrementIP_def)

lemma first_three:
  "AllocateIP \<lparr>network = \<lparr>IP = 0x0A640000, Mask = 0xFFFF0000\<rparr>, allocated = {}, nextIP = 0x0A640001\<rparr> =
     Some (Inr ''10.100.0.1'', \<lparr>network = \<lparr>IP = 0x0A640000, Mask = 0xFFFF0000\<rparr>,
            allocated = {''10.100.0.1''}, nextIP = 0x0A640002\<rparr>)"
  "AllocateIP \<lparr>network = \<lparr>IP = 0x0A640000, Mask = 0xFFFF0000\<rparr>, allocated = {''10.100.0.1''}, nextIP = 0x0A640002\<rparr> =
     Some (Inr ''10.100.0.2'', \<lparr>network = \<lparr>IP = 0x0A640000, Mask = 0xFFFF0000\<rparr>,
            allocated = {''10.100.0.2'', ''10.100.0.1''}, nextIP = 0x0A640003\<rparr>)"
  "AllocateIP \<lparr>network = \<lparr>IP = 0x0A640000, Mask = 0xFFFF0000\<rparr>, allocated = {''10.100.0.2'', ''10.100.0.1''}, nextIP = 0x0A640003\<rparr> =
     Some (Inr ''10.100.0.3'', \<lparr>network = \<lparr>IP = 0x0A640000, Mask = 0xFFFF0000\<rparr>,
            allocated = {''10.100.0.3'', ''10.100.0.2'', ''10.100.0.1''}, nextIP = 0x0A640004\<rparr>)"
  by (subst AllocateIP_free; simp add: Contains_def String_examples)+

lemma reachable_usable:
  assumes "NewIPAllocator cidr = Inr a0" "Mask (network a0) \<noteq> 0"
  shows "\<exists>a. ipam_run ops a0 = Some a \<and>
           (\<exists>r a'. AllocateIP a = Some (r, a') \<and>
              (\<forall>ip. r = Inr ip \<longrightarrow>
                 (\<exists>w. ip = String w \<and> parseIPv4 ip = Some w \<and> Contains (network a0) w \<and>
                      w \<noteq> IP (network a0) \<and> w \<noteq> (IP (network a0) OR NOT (Mask (network a0))))))"
proof -
  from NewIPAllocator_inv[OF assms] obtain h where h: "ipam_inv h a0" ..
  from ipam_run_inv[OF h, of ops] obtain a where
    a: "ipam_run ops a0 = Some a" "ipam_inv h a" "network a = network a0" by blast
  from AllocateIP_inv[OF a(2)] obtain r a' where
    r: "AllocateIP a = Some (r, a')" "alloc_post h a r a'" by blast
  have "\<exists>w. ip = String w \<and> parseIPv4 ip = Some w \<and> Contains (network a0) w \<and>
            w \<noteq> IP (network a0) \<and> w \<noteq> (IP (network a0) OR NOT (Mask (network a0)))"
    if "r = Inr ip" for ip
    using alloc_post_usable[OF a(2), of ip a'] r(2) that a(3) by (auto simp: parseIPv4_String)
  with a(1) r(1) show ?thesis by blast
qed

text \<open>
  In a fresh allocator for \<open>10.100.0.0/16\<close> the first three \<^verbatim>\<open>AllocateIP\<close> calls return
  \<open>10.100.0.1\<close>, \<open>10.100.0.2\<close>, \<open>10.100.0.3\<close> in that order. For every network text
  whose prefix length is not zero (the mask is not zero) and every sequence of allocator
  calls, the sequence returns, the next \<^verbatim>\<open>AllocateIP\<close> returns, and an address it returns
  lies inside the network and is neither the network address nor the broadcast address.
\<close>

theorem AllocateIP_order_and_exclusion:
  "(\<exists>a0 a1 a2 a3. NewIPAllocator ''10.100.0.0/16'' = Inr a0 \<and> allocated a0 = {} \<and>
      AllocateIP a0 = Some (Inr ''10.100.0.1'', a1) \<and>
      AllocateIP a1 = Some (Inr ''10.100.0.2'', a2) \<and>
      AllocateIP a2 = Some (Inr ''10.100.0.3'', a3)) \<and>
   (\<forall>cidr a0 ops. NewIPAllocator cidr = Inr a0 \<and> Mask (network a0) \<noteq> 0 \<longrightarrow>
      (\<exists>a. ipam_run ops a0 = Some a \<and>
         (\<exists>r a'. AllocateIP a = Some (r, a') \<and>
            (\<forall>ip. r = Inr ip \<longrightarrow>
               (\<exists>w. ip = String w \<and> parseIPv4 ip = Some w \<and> Contains (network a0) w \<and>
                    w \<noteq> IP (network a0) \<and> w \<noteq> (IP (network a0) OR NOT (Mask (network a0))))))))"
proof (intro conjI allI impI)
  show "\<exists>a0 a1 a2 a3. NewIPAllocator ''10.100.0.0/16'' = Inr a0 \<and> allocated a0 = {} \<and>
      AllocateIP a0 = Some (Inr ''10.100.0.1'', a1) \<and>
      AllocateIP a1 = Some (Inr ''10.100.0.2'', a2) \<and>
      AllocateIP a2 = Some (Inr ''10.100.0.3'', a3)"
    unfolding New_default
    apply (intro exI conjI)
        apply (rule refl)
       prefer 2 apply (rule first_three(1))
      prefer 2 apply (rule first_three(2))
     prefer 2 apply (rule first_three(3))
    apply simp
    done
next
  fix cidr a0 ops
  assume "NewIPAllocator cidr = Inr a0 \<and> Mask (network a0) \<noteq> 0"
  then show "\<exists>a. ipam_run ops a0 = Some a \<and>
         (\<exists>r a'. AllocateIP a = Some (r, a') \<and>
            (\<forall>ip. r = Inr ip \<longrightarrow>
               (\<exists>w. ip = String w \<and> parseIPv4 ip = Some w \<and> Contains (network a0) w \<and>
                    w \<noteq> IP (network a0) \<and> w \<noteq> (IP (network a0) OR NOT (Mask (network a0))))))"
    using reachable_usable by blast
qed


theorem AllocateIP_order_and_exclusion_witness:
  "NewIPAllocator ''10.100.0.0/16'' =
     Inr \<lparr>network = \<lparr>IP = 0x0A640000, Mask = 0xFFFF0000\<rparr>, allocated = {}, nextIP = 0x0A640001\<rparr> \<and>
   Mask \<lparr>IP = 0x0A640000 :: ip4, Mask = 0xFFFF0000\<rparr> \<noteq> 0 \<and>
   ipam_run [OpAllocate] \<lparr>network = \<lparr>IP = 0x0A640000, Mask = 0xFFFF0000\<rparr>, allocated = {}, nextIP = 0x0A640001\<rparr> =
     Some \<lparr>network = \<lparr>IP = 0x0A640000, Mask = 0xFFFF0000\<rparr>, allocated = {''10.100.0.1''}, nextIP = 0x0A640002\<rparr> \<and>
   (\<exists>a'. AllocateIP \<lparr>network = \<lparr>IP = 0x0A640000, Mask = 0xFFFF0000\<rparr>, allocated = {''10.100.0.1''}, nextIP = 0x0A640002\<rparr> =
       Some (Inr ''10.100.0.2'', a')) \<and>
   (\<exists>w. ''10.100.0.2'' = String w \<and> parseIPv4 ''10.100.0.2'' = Some w \<and>
        Contains \<lparr>IP = 0x0A640000, Mask = 0xFFFF0000\<rparr> w \<and> w \<noteq> 0x0A640000 \<and>
        w \<noteq> (0x0A640000 OR NOT 0xFFFF0000))"
proof -
  let ?a0 = "\<lparr>network = \<lparr>IP = 0x0A640000, Mask = 0xFFFF0000\<rparr>, allocated = {}, nextIP = 0x0A640001 :: ip4\<rparr>"
  let ?a1 = "\<lparr>network = \<lparr>IP = 0x0A640000, Mask = 0xFFFF0000\<rparr>, allocated = {''10.100.0.1''}, nextIP = 0x0A640002 :: ip4\<rparr>"
  have m: "Mask (network ?a0) \<noteq> 0" by simp
  have run: "ipam_run [OpAllocate] ?a0 = Some ?a1" by (simp add: first_three(1))
  from AllocateIP_order_and_exclusion New_default m
  have "\<exists>a. ipam_run [OpAllocate] ?a0 = Some a \<and>
         (\<exists>r a'. AllocateIP a = Some (r, a') \<and>
            (\<forall>ip. r = Inr ip \<longrightarrow>
               (\<exists>w. ip = String w \<and> parseIPv4 ip = Some w \<and> Contains (network ?a0) w \<and>
                    w \<noteq> IP (network ?a0) \<and> w \<noteq> (IP (network ?a0) OR NOT (Mask (network ?a0))))))"
    by blast
  then have "\<exists>w. ''10.100.0.2'' = String w \<and> parseIPv4 ''10.100.0.2'' = Some w \<and> Contains (network ?a0) w \<and>
                    w \<noteq> IP (network ?a0) \<and> w \<noteq> (IP (network ?a0) OR NOT (Mask (network ?a0)))"
    unfolding run by (simp add: first_three(2))
  then show ?thesis using New_default run first_three(2) by simp
qed

text \<open>The network \<open>0.0.0.0/0\<close>: every address is inside, and the cursor wraps.\<close>

lemma New_zero:
  "NewIPAllocator ''0.0.0.0/0'' =
     Inr \<lparr>network = \<lparr>IP = 0, Mask = 0\<rparr>, allocated = {}, nextIP = 1\<rparr>"
  using not_mask_eq_0[of 32]
  by (simp add: NewIPAllocator_def ParseCIDR_def parseIPv4_def is_digit_def digit_val_def
      from_octets_def CIDRMask_def incrementIP_def)

lemma of_nat32_inj: "i < 2 ^ 32 \<Longrightarrow> j < 2 ^ 32 \<Longrightarrow> (of_nat i :: 32 word) = of_nat j \<Longrightarrow> i = j"
  by (metis unat_of_nat32)

lemma zero_alloc:
  assumes "m + 1 < 2 ^ 32 - 1"
  shows "AllocateIP \<lparr>network = \<lparr>IP = 0, Mask = 0\<rparr>,
            allocated = (\<lambda>j. String (of_nat j)) ` {1..m}, nextIP = of_nat (m + 1)\<rparr> =
         Some (Inr (String (of_nat (m + 1))),
           \<lparr>network = \<lparr>IP = 0, Mask = 0\<rparr>,
            allocated = (\<lambda>j. String (of_nat j)) ` {1..Suc m}, nextIP = of_nat (Suc m + 1)\<rparr>)"
proof -
  let ?a = "\<lparr>network = \<lparr>IP = 0, Mask = 0\<rparr>,
            allocated = (\<lambda>j. String (of_nat j :: ip4)) ` {1..m}, nextIP = of_nat (m + 1)\<rparr>"
  have c: "Contains (network ?a) (nextIP ?a)" by (simp add: Contains_def)
  have "unat (of_nat (m + 1) :: ip4) = m + 1" by (rule unat_of_nat32) (use assms in simp)
  then have "unat (of_nat (m + 1) :: ip4) \<noteq> unat (- 1 :: ip4)"
    using assms by (simp only: unat_max32)
  then have "(of_nat (m + 1) :: ip4) \<noteq> - 1" by metis
  then have b: "nextIP ?a \<noteq> (IP (network ?a) OR NOT (Mask (network ?a)))"
    by (simp del: of_nat_add of_nat_Suc)
  have f: "String (nextIP ?a) \<notin> allocated ?a"
  proof
    assume "String (nextIP ?a) \<in> allocated ?a"
    then obtain j where j: "1 \<le> j" "j \<le> m" "String (of_nat (m + 1) :: ip4) = String (of_nat j)"
      by auto
    then have "(of_nat (m + 1) :: ip4) = of_nat j" by (intro String_inj)
    then have "m + 1 = j" using assms j(2) by (intro of_nat32_inj) simp_all
    with j(2) show False by simp
  qed
  have img: "(\<lambda>j. String (of_nat j :: ip4)) ` {Suc 0..Suc m} =
      insert (String (1 + of_nat m)) ((\<lambda>j. String (of_nat j)) ` {Suc 0..m})"
  proof -
    have "{Suc 0..Suc m} = insert (Suc m) {Suc 0..m}" by auto
    then show ?thesis by (simp only: image_insert of_nat_Suc)
  qed
  show ?thesis
    using AllocateIP_free[OF c b f] by (simp add: img add.commute)
qed

lemma zero_run:
  "m + n + 1 < 2 ^ 32 \<Longrightarrow>
   ipam_run (replicate n OpAllocate)
     \<lparr>network = \<lparr>IP = 0, Mask = 0\<rparr>,
      allocated = (\<lambda>j. String (of_nat j)) ` {1..m}, nextIP = of_nat (m + 1)\<rparr> =
   Some \<lparr>network = \<lparr>IP = 0, Mask = 0\<rparr>,
      allocated = (\<lambda>j. String (of_nat j)) ` {1..m + n}, nextIP = of_nat (m + n + 1)\<rparr>"
proof (induction n arbitrary: m)
  case 0
  then show ?case by simp
next
  case (Suc n)
  have "m + 1 < 2 ^ 32 - 1" using Suc.prems by simp
  note st = zero_alloc[OF this]
  have "Suc m + n + 1 < 2 ^ 32" using Suc.prems by simp
  note ih = Suc.IH[OF this]
  have e: "Suc m + n = m + Suc n" by simp
  show ?case
    by (simp only: replicate_Suc ipam_run.simps ipam_step.simps st option.map option.case
          snd_conv ih e)
qed

lemma zero_wrap:
  "AllocateIP \<lparr>network = \<lparr>IP = 0, Mask = 0\<rparr>,
      allocated = (\<lambda>j. String (of_nat j)) ` {1..2 ^ 32 - 2}, nextIP = - 1\<rparr> =
   Some (Inr ''0.0.0.0'',
     \<lparr>network = \<lparr>IP = 0, Mask = 0\<rparr>,
      allocated = insert ''0.0.0.0'' ((\<lambda>j. String (of_nat j)) ` {1..2 ^ 32 - 2}), nextIP = 1\<rparr>)"
proof -
  let ?A = "(\<lambda>j. String (of_nat j :: ip4)) ` {1..2 ^ 32 - 2}"
  let ?a = "\<lparr>network = \<lparr>IP = 0, Mask = 0\<rparr>, allocated = ?A, nextIP = - 1 :: ip4\<rparr>"
  let ?b = "\<lparr>network = \<lparr>IP = 0, Mask = 0\<rparr>, allocated = ?A, nextIP = 0 :: ip4\<rparr>"
  have "AllocateIP ?a = AllocateIP (?a\<lparr>nextIP := nextIP ?a + 1\<rparr>)"
    by (rule AllocateIP_skip_broadcast) (simp_all add: Contains_def)
  then have 1: "AllocateIP ?a = AllocateIP ?b" by simp
  have c: "Contains (network ?b) (nextIP ?b)" by (simp add: Contains_def)
  have b: "nextIP ?b \<noteq> (IP (network ?b) OR NOT (Mask (network ?b)))" by simp
  have f: "String (nextIP ?b) \<notin> allocated ?b"
  proof
    assume "String (nextIP ?b) \<in> allocated ?b"
    then obtain j where j: "1 \<le> j" "j \<le> 2 ^ 32 - 2" "String (0 :: ip4) = String (of_nat j)"
      by auto
    then have "(of_nat 0 :: ip4) = of_nat j" using String_inj by fastforce
    then have "0 = j" using j(2) by (intro of_nat32_inj) simp_all
    with j(1) show False by simp
  qed
  show ?thesis unfolding 1
    by (subst AllocateIP_free[OF c b f]) (simp add: String_examples)
qed

text \<open>
  Claim C8. The allocator starts after the network address and steps over the broadcast
  address, but \<^verbatim>\<open>incrementIP\<close> wraps around. In \<open>0.0.0.0/0\<close> the broadcast address is
  \<open>255.255.255.255\<close> and every address is inside the network: after \<open>2 ^ 32 - 2\<close>
  allocations the cursor steps over the broadcast address, wraps to \<open>0.0.0.0\<close>, and the
  next call returns the text of the network address.
\<close>

theorem AllocateIP_returns_network_address:
  "NewIPAllocator ''0.0.0.0/0'' =
     Inr \<lparr>network = \<lparr>IP = 0, Mask = 0\<rparr>, allocated = {}, nextIP = 1\<rparr> \<and>
   (\<exists>a a'. ipam_run (replicate (2 ^ 32 - 2) OpAllocate)
              \<lparr>network = \<lparr>IP = 0, Mask = 0\<rparr>, allocated = {}, nextIP = 1\<rparr> = Some a \<and>
           AllocateIP a = Some (Inr ''0.0.0.0'', a') \<and>
           String (IP (network a)) = ''0.0.0.0'' \<and>
           Option.bind (ParseIP ''0.0.0.0'') To4 = Some (IP (network a)))"
proof -
  have "ipam_run (replicate (2 ^ 32 - 2) OpAllocate)
     \<lparr>network = \<lparr>IP = 0, Mask = 0\<rparr>,
      allocated = (\<lambda>j. String (of_nat j)) ` {1..0}, nextIP = of_nat (0 + 1)\<rparr> =
   Some \<lparr>network = \<lparr>IP = 0, Mask = 0\<rparr>,
      allocated = (\<lambda>j. String (of_nat j)) ` {1..0 + (2 ^ 32 - 2)}, nextIP = of_nat (0 + (2 ^ 32 - 2) + 1)\<rparr>"
    by (rule zero_run) simp
  then have run: "ipam_run (replicate (2 ^ 32 - 2) OpAllocate)
     \<lparr>network = \<lparr>IP = 0, Mask = 0\<rparr>, allocated = {}, nextIP = 1\<rparr> =
   Some \<lparr>network = \<lparr>IP = 0, Mask = 0\<rparr>,
      allocated = (\<lambda>j. String (of_nat j)) ` {1..2 ^ 32 - 2}, nextIP = - 1\<rparr>"
    by simp
  have p: "Option.bind (ParseIP ''0.0.0.0'') To4 = Some 0"
    using To4_ParseIP_String[of 0] by (simp add: String_examples)
  show ?thesis
    unfolding run using New_zero zero_wrap p by (simp add: String_examples)
qed

section \<open>Release and the cursor\<close>

lemma ipam_step_mono:
  assumes "ipam_inv h a" "ipam_step x a = Some a'"
  shows "offset (network a) (nextIP a) \<le> offset (network a) (nextIP a')"
proof (cases x)
  case OpAllocate
  then show ?thesis using AllocateIP_inv[OF assms(1)] assms(2) by (auto simp: alloc_post_def)
next
  case (OpReserve ip)
  then show ?thesis using assms(2) by (auto simp: AllocateSpecificIP_frame)
next
  case (OpRelease ip)
  then show ?thesis using assms(2) by (auto simp: ReleaseIP_def)
qed

lemma ipam_run_mono:
  assumes "ipam_inv h a" "ipam_run xs a = Some a'"
  shows "offset (network a) (nextIP a) \<le> offset (network a) (nextIP a')"
  using assms
proof (induction xs arbitrary: a)
  case Nil
  then show ?case by simp
next
  case (Cons x xs)
  from ipam_step_inv[OF Cons.prems(1), of x] obtain a1 where
    a1: "ipam_step x a = Some a1" "ipam_inv h a1" "network a1 = network a" by blast
  from Cons.prems(2) a1(1) have "ipam_run xs a1 = Some a'" by simp
  from Cons.IH[OF a1(2) this] ipam_step_mono[OF Cons.prems(1) a1(1)] a1(3)
  show ?case by simp
qed

lemma release_allocate:
  assumes "ipam_inv h a"
  shows "\<exists>r b. AllocateIP (ReleaseIP a ip) = Some (r, b) \<and>
        offset (network a) (nextIP a) \<le> offset (network a) (nextIP b) \<and>
        (\<forall>w. r = Inr (String w) \<longrightarrow> offset (network a) (nextIP a) \<le> offset (network a) w) \<and>
        (\<forall>w. ip = String w \<and> Contains (network a) w \<and>
             w \<noteq> (IP (network a) OR NOT (Mask (network a))) \<and>
             offset (network a) (nextIP a) \<le> offset (network a) w \<longrightarrow> r \<noteq> Inl NoMoreIPs) \<and>
        (\<not> Contains (network a) (nextIP a) \<longrightarrow> r = Inl NoMoreIPs)"
proof -
  let ?n = "network a" and ?b = "ReleaseIP a ip"
  from assms have net: "net_of ?n h" and h: "h < 32" by (simp_all add: ipam_inv_def)
  have pow: "(2::nat) ^ h \<le> 2 ^ 32" using h by (intro power_increasing) simp_all
  have invb: "ipam_inv h ?b" using assms by (simp add: ipam_inv_def ReleaseIP_def)
  have fr: "network ?b = ?n" "nextIP ?b = nextIP a" "allocated ?b = allocated a - {ip}"
    by (simp_all add: ReleaseIP_def)
  from AllocateIP_inv[OF invb] obtain r b where
    r: "AllocateIP ?b = Some (r, b)" and post: "alloc_post h ?b r b" by blast
  have mono: "offset ?n (nextIP a) \<le> offset ?n (nextIP b)"
    using post fr by (simp add: alloc_post_def)
  have behind: "offset ?n (nextIP a) \<le> offset ?n w" if "r = Inr (String w)" for w
  proof -
    from post that fr obtain k where k: "offset ?n (nextIP a) \<le> k" "k < 2 ^ h - 1"
      "String w = String (IP ?n + of_nat k)"
      by (auto simp: alloc_post_def)
    from k(3) have "w = IP ?n + of_nat k" by (rule String_inj)
    moreover have "k < 2 ^ 32" using k(2) pow by simp
    ultimately have "offset ?n w = k" by (simp add: offset_def unat_of_nat32)
    with k(1) show ?thesis by simp
  qed
  have notex: "r \<noteq> Inl NoMoreIPs"
    if w: "ip = String w" "Contains ?n w" "w \<noteq> (IP ?n OR NOT (Mask ?n))"
      "offset ?n (nextIP a) \<le> offset ?n w" for w
  proof
    assume "r = Inl NoMoreIPs"
    with post fr have all: "\<forall>j. offset ?n (nextIP a) \<le> j \<and> j < 2 ^ h - 1 \<longrightarrow>
        String (IP ?n + of_nat j) \<in> allocated a - {ip}"
      by (simp add: alloc_post_def)
    have "offset ?n w < 2 ^ h" using Contains_iff[OF net, of w] w(2) by (simp add: offset_def)
    moreover have "offset ?n w \<noteq> 2 ^ h - 1"
      using broadcast_iff[OF net, of w] w(3) by (simp add: offset_def)
    ultimately have "offset ?n w < 2 ^ h - 1" by simp
    with all w(4) have "String (IP ?n + of_nat (offset ?n w)) \<in> allocated a - {ip}" by blast
    then show False using w(1) by (simp add: offset_cursor)
  qed
  have out: "r = Inl NoMoreIPs" if "\<not> Contains ?n (nextIP a)"
  proof -
    from that have "\<not> Contains (network ?b) (nextIP ?b)" by (simp add: fr)
    from AllocateIP_outside[OF this] r show ?thesis by simp
  qed
  from r mono behind notex out show ?thesis by blast
qed

lemma ipam_run_append:
  "ipam_run (xs @ ys) a = (case ipam_run xs a of None \<Rightarrow> None | Some b \<Rightarrow> ipam_run ys b)"
  by (induction xs arbitrary: a) (auto split: option.splits)

lemma later_allocate:
  assumes "ipam_inv h c"
  shows "\<exists>r b. AllocateIP c = Some (r, b) \<and>
        offset (network c) (nextIP c) \<le> offset (network c) (nextIP b) \<and>
        (\<forall>w. r = Inr (String w) \<longrightarrow> offset (network c) (nextIP c) \<le> offset (network c) w) \<and>
        (\<not> Contains (network c) (nextIP c) \<longrightarrow> r = Inl NoMoreIPs)"
proof -
  let ?n = "network c"
  from assms have net: "net_of ?n h" and h: "h < 32" by (simp_all add: ipam_inv_def)
  have pow: "(2::nat) ^ h \<le> 2 ^ 32" using h by (intro power_increasing) simp_all
  from AllocateIP_inv[OF assms] obtain r b where
    r: "AllocateIP c = Some (r, b)" and post: "alloc_post h c r b" by blast
  have mono: "offset ?n (nextIP c) \<le> offset ?n (nextIP b)"
    using post by (simp add: alloc_post_def)
  have behind: "offset ?n (nextIP c) \<le> offset ?n w" if "r = Inr (String w)" for w
  proof -
    from post that obtain k where k: "offset ?n (nextIP c) \<le> k" "k < 2 ^ h - 1"
      "String w = String (IP ?n + of_nat k)"
      by (auto simp: alloc_post_def)
    from k(3) have "w = IP ?n + of_nat k" by (rule String_inj)
    moreover have "k < 2 ^ 32" using k(2) pow by simp
    ultimately have "offset ?n w = k" by (simp add: offset_def unat_of_nat32)
    with k(1) show ?thesis by simp
  qed
  have out: "r = Inl NoMoreIPs" if "\<not> Contains ?n (nextIP c)"
    using AllocateIP_outside[OF that] r by simp
  from r mono behind out show ?thesis by blast
qed

lemma AllocateSpecificIP_String:
  assumes "Contains (network a) w" "String w \<notin> allocated a"
  shows "AllocateSpecificIP a (String w) = (None, a\<lparr>allocated := insert (String w) (allocated a)\<rparr>)"
  unfolding AllocateSpecificIP_def ParseIP_String option.case ContainsIP_String
  using assms by simp

text \<open>
  Claim C3, amended. In a network whose prefix length is not zero, \<^verbatim>\<open>ReleaseIP\<close> only
  takes the text out of the allocated set and leaves the cursor where it is. The cursor
  never moves back: not between any two moments of the allocator's life before the
  release, and not in any sequence of calls after it. The \<^verbatim>\<open>AllocateIP\<close> call right after
  the release returns and does not report \<^verbatim>\<open>NoMoreIPs\<close> when the released address is
  inside the network, is not the broadcast address and is at or after the cursor. After
  any sequence of calls that follows the release, \<^verbatim>\<open>AllocateIP\<close> returns, returns no
  address before the cursor, so never the released address when that is behind the cursor
  of the release, and reports \<^verbatim>\<open>NoMoreIPs\<close> when the cursor had left the network at the
  release, whatever is free. \<^verbatim>\<open>AllocateSpecificIP\<close> takes the released address again when
  the network contains it.
\<close>

theorem release_then_allocate:
  assumes "NewIPAllocator cidr = Inr a0" "Mask (network a0) \<noteq> 0" "ipam_run ops a0 = Some a"
  shows "\<not> IsAllocated (ReleaseIP a ip) ip \<and> nextIP (ReleaseIP a ip) = nextIP a \<and>
     network (ReleaseIP a ip) = network a \<and> allocated (ReleaseIP a ip) = allocated a - {ip} \<and>
     (\<forall>pre post a1. ops = pre @ post \<and> ipam_run pre a0 = Some a1 \<longrightarrow>
        offset (network a) (nextIP a0) \<le> offset (network a) (nextIP a1) \<and>
        offset (network a) (nextIP a1) \<le> offset (network a) (nextIP a)) \<and>
     (\<exists>r b. AllocateIP (ReleaseIP a ip) = Some (r, b) \<and>
        offset (network a) (nextIP a) \<le> offset (network a) (nextIP b) \<and>
        (\<forall>w. r = Inr (String w) \<longrightarrow> offset (network a) (nextIP a) \<le> offset (network a) w) \<and>
        (\<forall>w. ip = String w \<and> Contains (network a) w \<and>
             w \<noteq> (IP (network a) OR NOT (Mask (network a))) \<and>
             offset (network a) (nextIP a) \<le> offset (network a) w \<longrightarrow> r \<noteq> Inl NoMoreIPs) \<and>
        (\<not> Contains (network a) (nextIP a) \<longrightarrow> r = Inl NoMoreIPs)) \<and>
     (\<forall>later. \<exists>c r b. ipam_run later (ReleaseIP a ip) = Some c \<and>
        offset (network a) (nextIP a) \<le> offset (network a) (nextIP c) \<and>
        AllocateIP c = Some (r, b) \<and>
        offset (network a) (nextIP c) \<le> offset (network a) (nextIP b) \<and>
        (\<forall>w. r = Inr (String w) \<longrightarrow> offset (network a) (nextIP c) \<le> offset (network a) w) \<and>
        (\<forall>w. ip = String w \<and> offset (network a) w < offset (network a) (nextIP a) \<longrightarrow>
             r \<noteq> Inr ip) \<and>
        (\<not> Contains (network a) (nextIP a) \<longrightarrow> r = Inl NoMoreIPs)) \<and>
     (\<forall>w. ip = String w \<and> Contains (network a) w \<longrightarrow>
        AllocateSpecificIP (ReleaseIP a ip) ip = (None, a\<lparr>allocated := insert ip (allocated a)\<rparr>))"
proof -
  from NewIPAllocator_inv[OF assms(1,2)] obtain h where h: "ipam_inv h a0" ..
  from ipam_run_inv[OF h, of ops] assms(3) have a: "ipam_inv h a" and na: "network a = network a0"
    by auto
  let ?n = "network a" and ?rel = "ReleaseIP a ip"
  have rel: "ipam_inv h ?rel" using a by (simp add: ipam_inv_def ReleaseIP_def)
  have fr: "network ?rel = ?n" "nextIP ?rel = nextIP a" "allocated ?rel = allocated a - {ip}"
    "\<not> IsAllocated ?rel ip"
    by (simp_all add: ReleaseIP_def IsAllocated_def)
  from a have net: "net_of ?n h" by (simp add: ipam_inv_def)
  have before: "offset ?n (nextIP a0) \<le> offset ?n (nextIP a1) \<and>
      offset ?n (nextIP a1) \<le> offset ?n (nextIP a)"
    if "ops = pre @ post \<and> ipam_run pre a0 = Some a1" for pre post a1
  proof -
    from that have p: "ipam_run pre a0 = Some a1" and q: "ipam_run post a1 = Some a"
      using assms(3) by (simp_all add: ipam_run_append)
    from ipam_run_inv[OF h, of pre] p have a1: "ipam_inv h a1" "network a1 = network a0" by auto
    from ipam_run_mono[OF h p] ipam_run_mono[OF a1(1) q] a1(2) na show ?thesis by simp
  qed
  have after: "\<exists>c r b. ipam_run later ?rel = Some c \<and>
        offset ?n (nextIP a) \<le> offset ?n (nextIP c) \<and>
        AllocateIP c = Some (r, b) \<and>
        offset ?n (nextIP c) \<le> offset ?n (nextIP b) \<and>
        (\<forall>w. r = Inr (String w) \<longrightarrow> offset ?n (nextIP c) \<le> offset ?n w) \<and>
        (\<forall>w. ip = String w \<and> offset ?n w < offset ?n (nextIP a) \<longrightarrow> r \<noteq> Inr ip) \<and>
        (\<not> Contains ?n (nextIP a) \<longrightarrow> r = Inl NoMoreIPs)" for later
  proof -
    from ipam_run_inv[OF rel, of later] obtain c where
      c: "ipam_run later ?rel = Some c" "ipam_inv h c" "network c = ?n"
      using fr(1) by auto
    from ipam_run_mono[OF rel c(1)] have mono: "offset ?n (nextIP a) \<le> offset ?n (nextIP c)"
      by (simp add: fr)
    from later_allocate[OF c(2)] obtain r b where
      r: "AllocateIP c = Some (r, b)" "offset ?n (nextIP c) \<le> offset ?n (nextIP b)"
      and behind: "\<forall>w. r = Inr (String w) \<longrightarrow> offset ?n (nextIP c) \<le> offset ?n w"
      and out: "\<not> Contains ?n (nextIP c) \<longrightarrow> r = Inl NoMoreIPs"
      unfolding c(3) by blast
    have gap: "r \<noteq> Inr ip" if "ip = String w \<and> offset ?n w < offset ?n (nextIP a)" for w
      using that behind mono by auto
    have gone: "r = Inl NoMoreIPs" if "\<not> Contains ?n (nextIP a)"
    proof -
      from that have "\<not> offset ?n (nextIP a) < 2 ^ h"
        using Contains_iff[OF net, of "nextIP a"] by (simp add: offset_def)
      with mono have "\<not> offset ?n (nextIP c) < 2 ^ h" by simp
      then have "\<not> Contains ?n (nextIP c)"
        using Contains_iff[OF net, of "nextIP c"] by (simp add: offset_def)
      with out show ?thesis by simp
    qed
    from c(1) mono r behind gap gone show ?thesis by blast
  qed
  have reserve: "AllocateSpecificIP ?rel ip = (None, a\<lparr>allocated := insert ip (allocated a)\<rparr>)"
    if "ip = String w \<and> Contains ?n w" for w
  proof -
    from that have "Contains (network ?rel) w" "String w \<notin> allocated ?rel"
      by (simp_all add: ReleaseIP_def)
    from AllocateSpecificIP_String[OF this] that show ?thesis
      by (simp add: ReleaseIP_def)
  qed
  from release_allocate[OF a, of ip] fr before after reserve show ?thesis by blast
qed

lemma New_slash30:
  "NewIPAllocator ''10.100.0.0/30'' =
     Inr \<lparr>network = \<lparr>IP = 0x0A640000, Mask = 0xFFFFFFFC\<rparr>, allocated = {}, nextIP = 0x0A640001\<rparr>"
  by (simp add: NewIPAllocator_def ParseCIDR_def parseIPv4_def is_digit_def digit_val_def
      from_octets_def CIDRMask_def mask_eq_exp_minus_1 incrementIP_def)

lemma slash30_allocs:
  "AllocateIP \<lparr>network = \<lparr>IP = 0x0A640000, Mask = 0xFFFFFFFC\<rparr>, allocated = {}, nextIP = 0x0A640001\<rparr> =
     Some (Inr ''10.100.0.1'', \<lparr>network = \<lparr>IP = 0x0A640000, Mask = 0xFFFFFFFC\<rparr>,
            allocated = {''10.100.0.1''}, nextIP = 0x0A640002\<rparr>)"
  "AllocateIP \<lparr>network = \<lparr>IP = 0x0A640000, Mask = 0xFFFFFFFC\<rparr>, allocated = {''10.100.0.1''}, nextIP = 0x0A640002\<rparr> =
     Some (Inr ''10.100.0.2'', \<lparr>network = \<lparr>IP = 0x0A640000, Mask = 0xFFFFFFFC\<rparr>,
            allocated = {''10.100.0.2'', ''10.100.0.1''}, nextIP = 0x0A640003\<rparr>)"
  by (subst AllocateIP_free; simp add: Contains_def String_examples)+

lemma slash30_exhausted:
  "AllocateIP \<lparr>network = \<lparr>IP = 0x0A640000, Mask = 0xFFFFFFFC\<rparr>, allocated = A, nextIP = 0x0A640003\<rparr> =
     Some (Inl NoMoreIPs, \<lparr>network = \<lparr>IP = 0x0A640000, Mask = 0xFFFFFFFC\<rparr>, allocated = A, nextIP = 0x0A640004\<rparr>)"
proof -
  let ?a = "\<lparr>network = \<lparr>IP = 0x0A640000, Mask = 0xFFFFFFFC\<rparr>, allocated = A, nextIP = 0x0A640003 :: ip4\<rparr>"
  have "AllocateIP ?a = AllocateIP (?a\<lparr>nextIP := nextIP ?a + 1\<rparr>)"
    by (rule AllocateIP_skip_broadcast) (simp_all add: Contains_def)
  also have "\<dots> = Some (Inl NoMoreIPs, ?a\<lparr>nextIP := nextIP ?a + 1\<rparr>)"
    by (rule AllocateIP_outside) (simp add: Contains_def)
  finally show ?thesis by simp
qed

text \<open>
  As the claim is stated it fails: in \<open>10.100.0.0/30\<close>, after \<open>10.100.0.1\<close> and
  \<open>10.100.0.2\<close> are allocated and \<open>10.100.0.1\<close> is released, the next call steps over
  the broadcast address \<open>10.100.0.3\<close>, leaves the network and reports \<^verbatim>\<open>NoMoreIPs\<close>
  while \<open>10.100.0.1\<close> is free. The cursor does not wrap back.
\<close>

theorem exhausted_while_released_ip_free:
  "NewIPAllocator ''10.100.0.0/30'' =
     Inr \<lparr>network = \<lparr>IP = 0x0A640000, Mask = 0xFFFFFFFC\<rparr>, allocated = {}, nextIP = 0x0A640001\<rparr> \<and>
   (\<exists>a1. AllocateIP \<lparr>network = \<lparr>IP = 0x0A640000, Mask = 0xFFFFFFFC\<rparr>, allocated = {}, nextIP = 0x0A640001\<rparr> =
       Some (Inr ''10.100.0.1'', a1)) \<and>
   (\<exists>a. ipam_run [OpAllocate, OpAllocate, OpRelease ''10.100.0.1'']
           \<lparr>network = \<lparr>IP = 0x0A640000, Mask = 0xFFFFFFFC\<rparr>, allocated = {}, nextIP = 0x0A640001\<rparr> = Some a \<and>
        \<not> IsAllocated a ''10.100.0.1'' \<and>
        (\<exists>a'. AllocateIP a = Some (Inl NoMoreIPs, a')))"
  by (simp add: New_slash30 slash30_allocs ReleaseIP_def IsAllocated_def slash30_exhausted)

theorem release_then_allocate_witness:
  "NewIPAllocator ''10.100.0.0/16'' =
     Inr \<lparr>network = \<lparr>IP = 0x0A640000, Mask = 0xFFFF0000\<rparr>, allocated = {}, nextIP = 0x0A640001\<rparr> \<and>
   Mask \<lparr>IP = 0x0A640000 :: ip4, Mask = 0xFFFF0000\<rparr> \<noteq> 0 \<and>
   ipam_run [OpAllocate, OpReserve ''10.100.0.2'']
       \<lparr>network = \<lparr>IP = 0x0A640000, Mask = 0xFFFF0000\<rparr>, allocated = {}, nextIP = 0x0A640001\<rparr> =
     Some \<lparr>network = \<lparr>IP = 0x0A640000, Mask = 0xFFFF0000\<rparr>,
           allocated = {''10.100.0.2'', ''10.100.0.1''}, nextIP = 0x0A640002\<rparr> \<and>
   (\<exists>r b. AllocateIP (ReleaseIP \<lparr>network = \<lparr>IP = 0x0A640000, Mask = 0xFFFF0000\<rparr>,
           allocated = {''10.100.0.2'', ''10.100.0.1''}, nextIP = 0x0A640002\<rparr> ''10.100.0.2'') = Some (r, b) \<and>
      r \<noteq> Inl NoMoreIPs) \<and>
   (\<exists>c r b. ipam_run [OpAllocate, OpRelease ''10.100.0.2'']
          (ReleaseIP \<lparr>network = \<lparr>IP = 0x0A640000, Mask = 0xFFFF0000\<rparr>,
             allocated = {''10.100.0.2'', ''10.100.0.1''}, nextIP = 0x0A640002\<rparr> ''10.100.0.1'') = Some c \<and>
      AllocateIP c = Some (r, b) \<and> r \<noteq> Inr ''10.100.0.1'')"
proof -
  let ?ini = "\<lparr>network = \<lparr>IP = 0x0A640000, Mask = 0xFFFF0000\<rparr>, allocated = {}, nextIP = 0x0A640001 :: ip4\<rparr>"
  let ?cur = "\<lparr>network = \<lparr>IP = 0x0A640000, Mask = 0xFFFF0000\<rparr>,
           allocated = {''10.100.0.2'', ''10.100.0.1''}, nextIP = 0x0A640002 :: ip4\<rparr>"
  have m: "Mask (network ?ini) \<noteq> 0" by simp
  have run: "ipam_run [OpAllocate, OpReserve ''10.100.0.2''] ?ini = Some ?cur"
    by (simp add: first_three(1) AllocateSpecificIP_def ParseIP_examples ContainsIP_def
        To4_def v4InV6Prefix_def from_octets_def Contains_def)
  have w: "''10.100.0.2'' = String 0x0A640002" "Contains (network ?cur) 0x0A640002"
    "(0x0A640002 :: ip4) \<noteq> (IP (network ?cur) OR NOT (Mask (network ?cur)))"
    "offset (network ?cur) (nextIP ?cur) \<le> offset (network ?cur) 0x0A640002"
    by (simp_all add: String_examples Contains_def)
  note t2 = release_then_allocate[OF New_default m run, of "''10.100.0.2''"]
  from t2[THEN conjunct2, THEN conjunct2, THEN conjunct2, THEN conjunct2, THEN conjunct2,
      THEN conjunct1] w
  have ex: "\<exists>r b. AllocateIP (ReleaseIP ?cur ''10.100.0.2'') = Some (r, b) \<and> r \<noteq> Inl NoMoreIPs"
    by blast
  have v: "''10.100.0.1'' = String 0x0A640001 \<and>
      offset (network ?cur) 0x0A640001 < offset (network ?cur) (nextIP ?cur)"
    by (simp add: String_examples offset_def)
  note t1 = release_then_allocate[OF New_default m run, of "''10.100.0.1''"]
  from t1[THEN conjunct2, THEN conjunct2, THEN conjunct2, THEN conjunct2, THEN conjunct2,
      THEN conjunct2, THEN conjunct1, THEN spec, of "[OpAllocate, OpRelease ''10.100.0.2'']"]
  have "\<exists>c r b. ipam_run [OpAllocate, OpRelease ''10.100.0.2''] (ReleaseIP ?cur ''10.100.0.1'') = Some c \<and>
      AllocateIP c = Some (r, b) \<and>
      (\<forall>w. ''10.100.0.1'' = String w \<and>
           offset (network ?cur) w < offset (network ?cur) (nextIP ?cur) \<longrightarrow> r \<noteq> Inr ''10.100.0.1'')"
    by blast
  with v have gap: "\<exists>c r b. ipam_run [OpAllocate, OpRelease ''10.100.0.2''] (ReleaseIP ?cur ''10.100.0.1'') = Some c \<and>
      AllocateIP c = Some (r, b) \<and> r \<noteq> Inr ''10.100.0.1''"
    by blast
  have c2: "Mask \<lparr>IP = 0x0A640000 :: ip4, Mask = 0xFFFF0000\<rparr> \<noteq> 0" by simp
  from New_default c2 run ex gap show ?thesis by blast
qed

section \<open>The registry's invariant\<close>

lemma SavePeer_update:
  assumes "\<forall>(k, p) \<in> set al. ID p = k" "ID peer = k"
  shows "SavePeer (map snd al) peer = map snd (AList.update k peer al)"
  using assms by (induction al) auto

lemma set_update_subset:
  "(k', p) \<in> set (AList.update k v al) \<Longrightarrow> (k', p) = (k, v) \<or> (k', p) \<in> set al"
  by (induction al) (auto split: if_splits)

lemma generatePeerID_nonempty: "generatePeerID t \<noteq> []"
  by (simp add: generatePeerID_def)

lemma registry_inv_update_existing:
  assumes inv: "registry_inv s" and kp: "map_of (peers s) k = Some p"
    and same: "ID p' = ID p" "PublicKey p' = PublicKey p"
  shows "registry_inv (s\<lparr>peers := AList.update k p' (peers s), store := SavePeer (store s) p'\<rparr>)"
proof -
  from kp have mem: "(k, p) \<in> set (peers s)" by (rule map_of_SomeD)
  with inv have idp: "ID p = k" "k \<noteq> []" "map_of (peersByKey s) (PublicKey p) = Some k"
    by (auto simp: registry_inv_def)
  have ids: "\<forall>(k, p) \<in> set (peers s). ID p = k" using inv by (auto simp: registry_inv_def)
  have "SavePeer (map snd (peers s)) p' = map snd (AList.update k p' (peers s))"
    using ids same(1) idp(1) by (intro SavePeer_update) simp_all
  moreover have "distinct (map fst (AList.update k p' (peers s)))"
    using inv by (simp add: registry_inv_def distinct_update)
  moreover have "ID q = k' \<and> k' \<noteq> [] \<and> map_of (peersByKey s) (PublicKey q) = Some k'"
    if "(k', q) \<in> set (AList.update k p' (peers s))" for k' q
    using set_update_subset[OF that] inv same idp by (auto simp: registry_inv_def)
  ultimately show ?thesis using inv by (auto simp: registry_inv_def)
qed

lemma registry_inv_key_indexed:
  assumes "registry_inv s" "map_of (peersByKey s) K = None" "(k, p) \<in> set (peers s)"
  shows "PublicKey p \<noteq> K"
  using assms by (auto simp: registry_inv_def)

lemma registry_inv_insert_new:
  assumes inv: "registry_inv s" and fresh: "map_of (peersByKey s) K = None"
    and new: "ID p' = k" "PublicKey p' = K" "k \<noteq> []"
  shows "registry_inv (s\<lparr>ipAllocator := a', peers := AList.update k p' (peers s),
            peersByKey := AList.update K k (peersByKey s), store := SavePeer (store s) p'\<rparr>)"
proof -
  have ids: "\<forall>(k, p) \<in> set (peers s). ID p = k" using inv by (auto simp: registry_inv_def)
  have "SavePeer (map snd (peers s)) p' = map snd (AList.update k p' (peers s))"
    using ids new(1) by (intro SavePeer_update) simp_all
  moreover have "distinct (map fst (AList.update k p' (peers s)))"
    using inv by (simp add: registry_inv_def distinct_update)
  moreover have "ID q = k' \<and> k' \<noteq> [] \<and> map_of (AList.update K k (peersByKey s)) (PublicKey q) = Some k'"
    if "(k', q) \<in> set (AList.update k p' (peers s))" for k' q
  proof -
    from set_update_subset[OF that] show ?thesis
    proof
      assume "(k', q) = (k, p')"
      then show ?thesis using new by (simp add: update_conv')
    next
      assume old: "(k', q) \<in> set (peers s)"
      then have "PublicKey q \<noteq> K" using registry_inv_key_indexed[OF inv fresh] by blast
      then show ?thesis using old inv by (auto simp: registry_inv_def update_conv')
    qed
  qed
  ultimately show ?thesis using inv by (auto simp: registry_inv_def)
qed

lemma handleRegister_registry_inv:
  assumes "registry_inv s" "handleRegister s req idNow now = Some (r, s')"
  shows "registry_inv s'"
proof (cases "map_of (peersByKey s) (PublicKey_req req)")
  case None
  show ?thesis
  proof (cases "AllocateIP (ipAllocator s)")
    case none: None
    then show ?thesis using assms(2) None by (simp add: handleRegister_def)
  next
    case (Some ra)
    obtain res a' where ra: "ra = (res, a')" by (cases ra)
    show ?thesis
    proof (cases res)
      case (Inl e)
      then have "s' = s\<lparr>ipAllocator := a'\<rparr>"
        using assms(2) None Some ra by (simp add: handleRegister_def)
      then show ?thesis using assms(1) by (simp add: registry_inv_def)
    next
      case (Inr ip)
      then show ?thesis
        using assms(2) None Some ra
        by (auto simp: handleRegister_def Let_def generatePeerID_nonempty
            intro!: registry_inv_insert_new[OF assms(1) None])
    qed
  qed
next
  case (Some k)
  show ?thesis
  proof (cases "map_of (peers s) k")
    case None
    then show ?thesis using assms Some by (simp add: handleRegister_def)
  next
    case sp: (Some p)
    then show ?thesis using assms(2) Some
      by (auto simp: handleRegister_def Let_def intro!: registry_inv_update_existing[OF assms(1) sp])
  qed
qed

lemma handleHeartbeat_registry_inv:
  assumes "registry_inv s"
  shows "registry_inv (snd (handleHeartbeat s req now))"
proof (cases "map_of (peers s) (PeerID_hb req)")
  case None
  then show ?thesis using assms by (simp add: handleHeartbeat_def)
next
  case (Some p)
  then show ?thesis
    by (auto simp: handleHeartbeat_def Let_def intro!: registry_inv_update_existing[OF assms Some])
qed

lemma SavePeer_map:
  assumes "distinct (map ID st)" "p \<in> set st" "ID p' = ID p"
  shows "SavePeer st p' = map (\<lambda>q. if ID q = ID p then p' else q) st"
  using assms
proof (induction st)
  case Nil
  then show ?case by simp
next
  case (Cons a st)
  show ?case
  proof (cases "ID a = ID p")
    case True
    then have "ID p \<notin> ID ` set st" using Cons.prems(1) by simp
    then have "\<forall>q \<in> set st. ID q \<noteq> ID p" by (metis imageI)
    then have "map (\<lambda>q. if ID q = ID p then p' else q) st = st" by (induction st) auto
    then show ?thesis using True Cons.prems(3) by simp
  next
    case False
    then have "p \<in> set st" using Cons.prems(2) by auto
    then show ?thesis using False Cons by simp
  qed
qed

lemma cleanupLoop_store:
  assumes "distinct (map ID st)" "\<forall>(k, p) \<in> set ps. p \<in> set st" "distinct (map (ID \<circ> snd) ps)"
  shows "snd (cleanupLoop now ps st) =
     map (\<lambda>q. if ID q \<in> ID ` snd ` set ps \<and> Online q \<and> now - LastHeartbeat q > 120 * 1000000000
               then q\<lparr>Online := False\<rparr> else q) st"
  using assms
proof (induction ps arbitrary: st)
  case Nil
  then show ?case by (simp add: map_idI)
next
  case (Cons kp ps)
  obtain k p where kp: "kp = (k, p)" by (cases kp)
  have pst: "p \<in> set st" using Cons.prems(2) kp by simp
  have rest: "\<forall>(k, q) \<in> set ps. q \<in> set st \<and> ID q \<noteq> ID p"
    using Cons.prems(2,3) kp by (auto simp: image_iff)
  have uniq: "q = p" if "q \<in> set st" "ID q = ID p" for q
    using that pst Cons.prems(1) by (meson distinct_map inj_onD)
  have notin: "ID p \<notin> ID ` snd ` set ps" using rest by (auto simp: image_iff)
  show ?case
  proof (cases "Online p \<and> now - LastHeartbeat p > 120 * 1000000000")
    case True
    let ?p' = "p\<lparr>Online := False\<rparr>"
    let ?st1 = "SavePeer st ?p'"
    have st1: "?st1 = map (\<lambda>q. if ID q = ID p then ?p' else q) st"
      using Cons.prems(1) pst by (intro SavePeer_map) simp_all
    have ids: "map ID ?st1 = map ID st" unfolding st1 by (induction st) auto
    have d1: "distinct (map ID ?st1)" using Cons.prems(1) ids by simp
    have m1: "\<forall>(k, q) \<in> set ps. q \<in> set ?st1" unfolding st1 using rest by (auto simp: image_iff)
    have d2: "distinct (map (ID \<circ> snd) ps)" using Cons.prems(3) by (simp add: comp_def)
    have "snd (cleanupLoop now (kp # ps) st) = snd (cleanupLoop now ps ?st1)"
      using True kp by (simp add: Sub_gt_timeout case_prod_beta)
    also have "\<dots> = map (\<lambda>q. if ID q \<in> ID ` snd ` set ps \<and> Online q \<and> now - LastHeartbeat q > 120 * 1000000000
               then q\<lparr>Online := False\<rparr> else q) ?st1"
      by (rule Cons.IH[OF d1 m1 d2])
    also have "\<dots> = map (\<lambda>q. if ID q \<in> ID ` snd ` set (kp # ps) \<and> Online q \<and> now - LastHeartbeat q > 120 * 1000000000
               then q\<lparr>Online := False\<rparr> else q) st"
      unfolding st1 using notin True uniq kp by (auto simp: image_iff)
    finally show ?thesis .
  next
    case False
    have "snd (cleanupLoop now (kp # ps) st) = snd (cleanupLoop now ps st)"
      using False kp by (auto simp: Sub_gt_timeout case_prod_beta)
    also have "\<dots> = map (\<lambda>q. if ID q \<in> ID ` snd ` set ps \<and> Online q \<and> now - LastHeartbeat q > 120 * 1000000000
               then q\<lparr>Online := False\<rparr> else q) st"
      using Cons.prems rest by (intro Cons.IH) auto
    also have "\<dots> = map (\<lambda>q. if ID q \<in> ID ` snd ` set (kp # ps) \<and> Online q \<and> now - LastHeartbeat q > 120 * 1000000000
               then q\<lparr>Online := False\<rparr> else q) st"
      using False uniq kp by (auto simp: image_iff)
    finally show ?thesis .
  qed
qed

lemma registry_inv_ids: "registry_inv s \<Longrightarrow> map (ID \<circ> snd) (peers s) = map fst (peers s)"
  by (auto simp: registry_inv_def)

lemma cleanupPass_store:
  assumes "registry_inv s"
  shows "store (cleanupPass s now) = map snd (peers (cleanupPass s now))"
proof -
  let ?f = "\<lambda>q. if Online q \<and> now - LastHeartbeat q > 120 * 1000000000 then q\<lparr>Online := False\<rparr> else q"
  have st: "store s = map snd (peers s)" using assms by (simp add: registry_inv_def)
  have d: "distinct (map (ID \<circ> snd) (peers s))"
    unfolding registry_inv_ids[OF assms] using assms by (simp add: registry_inv_def)
  then have d': "distinct (map ID (store s))" by (simp add: st)
  have m: "\<forall>(k, p) \<in> set (peers s). p \<in> set (store s)" by (force simp: st)
  have "snd (cleanupLoop now (peers s) (store s)) =
     map (\<lambda>q. if ID q \<in> ID ` snd ` set (peers s) \<and> Online q \<and> now - LastHeartbeat q > 120 * 1000000000
               then q\<lparr>Online := False\<rparr> else q) (store s)"
    by (rule cleanupLoop_store[OF d' m d])
  also have "\<dots> = map ?f (store s)"
    by (auto simp: st image_iff)
  finally have "store (cleanupPass s now) = map ?f (map snd (peers s))"
    by (simp add: cleanupPass_def case_prod_beta st)
  moreover have "peers (cleanupPass s now) = map (\<lambda>(k, p). (k, ?f p)) (peers s)"
    using cleanupLoop_peers[of now "peers s" "store s"] by (simp add: cleanupPass_def case_prod_beta)
  ultimately show ?thesis by (simp add: case_prod_beta comp_def)
qed

lemma cleanupPass_registry_inv:
  assumes "registry_inv s"
  shows "registry_inv (cleanupPass s now)"
proof -
  let ?f = "\<lambda>q. if Online q \<and> now - LastHeartbeat q > 120 * 1000000000 then q\<lparr>Online := False\<rparr> else q"
  have p: "peers (cleanupPass s now) = map (\<lambda>(k, p). (k, ?f p)) (peers s)"
    using cleanupLoop_peers[of now "peers s" "store s"] by (simp add: cleanupPass_def case_prod_beta)
  have k: "peersByKey (cleanupPass s now) = peersByKey s"
    by (simp add: cleanupPass_def case_prod_beta)
  have "map fst (peers (cleanupPass s now)) = map fst (peers s)"
    unfolding p by (induction "peers s") auto
  then have "distinct (map fst (peers (cleanupPass s now)))"
    using assms by (simp add: registry_inv_def)
  moreover have "\<forall>(k, q) \<in> set (peers (cleanupPass s now)).
      ID q = k \<and> k \<noteq> [] \<and> map_of (peersByKey (cleanupPass s now)) (PublicKey q) = Some k"
    unfolding p k using assms by (auto simp: registry_inv_def)
  ultimately show ?thesis using cleanupPass_store[OF assms] by (simp add: registry_inv_def)
qed

lemma update_fresh: "k \<notin> fst ` set al \<Longrightarrow> AList.update k v al = al @ [(k, v)]"
  by (induction al) auto

lemma load_frame:
  "store (loadPeersFromStore ps s) = store s"
  "publicKey (loadPeersFromStore ps s) = publicKey s"
  "network (ipAllocator (loadPeersFromStore ps s)) = network (ipAllocator s)"
  "nextIP (ipAllocator (loadPeersFromStore ps s)) = nextIP (ipAllocator s)"
  by (induction ps arbitrary: s) (simp_all add: AllocateSpecificIP_frame)

lemma load_peers:
  assumes "distinct (map ID ps)" "ID ` set ps \<inter> fst ` set (peers s) = {}"
  shows "peers (loadPeersFromStore ps s) = peers s @ map (\<lambda>p. (ID p, p)) ps"
  using assms
proof (induction ps arbitrary: s)
  case Nil
  then show ?case by simp
next
  case (Cons p ps)
  let ?s1 = "s\<lparr>peers := AList.update (ID p) p (peers s),
          peersByKey := AList.update (PublicKey p) (ID p) (peersByKey s),
          ipAllocator := snd (AllocateSpecificIP (ipAllocator s) (VirtualIP p))\<rparr>"
  have fresh: "ID p \<notin> fst ` set (peers s)" using Cons.prems(2) by auto
  then have p1: "peers ?s1 = peers s @ [(ID p, p)]" by (simp add: update_fresh)
  have "ID ` set ps \<inter> fst ` set (peers ?s1) = {}"
    unfolding p1 using Cons.prems by auto
  moreover have "distinct (map ID ps)" using Cons.prems(1) by simp
  ultimately have "peers (loadPeersFromStore ps ?s1) = peers ?s1 @ map (\<lambda>p. (ID p, p)) ps"
    by (rule Cons.IH[rotated])
  then show ?case unfolding p1 by simp
qed

lemma load_keys_other:
  "K \<notin> PublicKey ` set ps \<Longrightarrow>
   map_of (peersByKey (loadPeersFromStore ps s)) K = map_of (peersByKey s) K"
  by (induction ps arbitrary: s) (auto simp: update_conv')

lemma load_keys:
  assumes "distinct (map PublicKey ps)" "p \<in> set ps"
  shows "map_of (peersByKey (loadPeersFromStore ps s)) (PublicKey p) = Some (ID p)"
  using assms
proof (induction ps arbitrary: s)
  case Nil
  then show ?case by simp
next
  case (Cons q ps)
  show ?case
  proof (cases "p = q")
    case True
    then have "PublicKey p \<notin> PublicKey ` set ps" using Cons.prems(1) by simp
    then show ?thesis using True by (simp add: load_keys_other update_conv')
  next
    case False
    then show ?thesis using Cons by simp
  qed
qed

lemma distinct_map_snd:
  assumes "distinct (map fst al)"
    and "\<And>x y. x \<in> set al \<Longrightarrow> y \<in> set al \<Longrightarrow> f (snd x) = f (snd y) \<Longrightarrow> fst x = fst y"
  shows "distinct (map (f \<circ> snd) al)"
  using assms
proof (induction al)
  case Nil
  then show ?case by simp
next
  case (Cons a al)
  have "f (snd a) \<notin> (f \<circ> snd) ` set al"
  proof
    assume "f (snd a) \<in> (f \<circ> snd) ` set al"
    then obtain b where b: "b \<in> set al" "f (snd a) = f (snd b)" by auto
    have "fst a = fst b" by (rule Cons.prems(2)) (use b in simp_all)
    moreover have "fst a \<notin> fst ` set al" using Cons.prems(1) by simp
    ultimately show False using b(1) by (metis imageI)
  qed
  moreover have "distinct (map (f \<circ> snd) al)"
  proof (rule Cons.IH)
    show "distinct (map fst al)" using Cons.prems(1) by simp
    show "fst x = fst y" if "x \<in> set al" "y \<in> set al" "f (snd x) = f (snd y)" for x y
      by (rule Cons.prems(2)) (use that in simp_all)
  qed
  ultimately show ?case by (simp add: comp_def)
qed

lemma registry_inv_keys_distinct:
  assumes "registry_inv s"
  shows "distinct (map (PublicKey \<circ> snd) (peers s))"
proof (rule distinct_map_snd)
  show "distinct (map fst (peers s))" using assms by (simp add: registry_inv_def)
  show "fst x = fst y"
    if "x \<in> set (peers s)" "y \<in> set (peers s)" "PublicKey (snd x) = PublicKey (snd y)" for x y
  proof -
    have "map_of (peersByKey s) (PublicKey (snd x)) = Some (fst x)"
      using assms that(1) by (cases x) (auto simp: registry_inv_def)
    moreover have "map_of (peersByKey s) (PublicKey (snd y)) = Some (fst y)"
      using assms that(2) by (cases y) (auto simp: registry_inv_def)
    ultimately show ?thesis using that(3) by simp
  qed
qed

lemma restart_peers:
  assumes "registry_inv s" "NewServer cidr pub (store s) = Inr s'"
  shows "peers s' = peers s \<and> store s' = store s \<and> publicKey s' = pub \<and>
         registry_inv s' \<and> NewIPAllocator cidr = Inr ((ipAllocator s')\<lparr>allocated := {}\<rparr>)"
proof -
  from assms(2) obtain a where a: "NewIPAllocator cidr = Inr a"
    and s': "s' = loadPeersFromStore (store s)
                 \<lparr>ipAllocator = a, peers = [], peersByKey = [], publicKey = pub, store = store s\<rparr>"
    by (auto simp: NewServer_def split: sum.splits)
  let ?e = "\<lparr>ipAllocator = a, peers = [], peersByKey = [], publicKey = pub, store = store s\<rparr>"
  have st: "store s = map snd (peers s)" using assms(1) by (simp add: registry_inv_def)
  have ids: "map ID (store s) = map fst (peers s)"
    using registry_inv_ids[OF assms(1)] by (simp add: st)
  have d: "distinct (map ID (store s))" unfolding ids using assms(1) by (simp add: registry_inv_def)
  have "peers s' = map (\<lambda>p. (ID p, p)) (store s)"
    unfolding s' using load_peers[OF d, of ?e] by simp
  also have "\<dots> = peers s"
    unfolding st using assms(1) by (auto simp: registry_inv_def intro!: map_idI)
  finally have p: "peers s' = peers s" .
  have dk: "distinct (map PublicKey (store s))"
    using registry_inv_keys_distinct[OF assms(1)] by (simp add: st)
  have keys: "map_of (peersByKey s') (PublicKey q) = Some k" if "(k, q) \<in> set (peers s)" for k q
  proof -
    from that have "q \<in> set (store s)" by (force simp: st)
    from load_keys[OF dk this, of ?e] have "map_of (peersByKey s') (PublicKey q) = Some (ID q)"
      by (simp add: s')
    moreover have "ID q = k" using assms(1) that by (auto simp: registry_inv_def)
    ultimately show ?thesis by simp
  qed
  have fr: "store s' = store s" "publicKey s' = pub" by (simp_all add: s' load_frame)
  have "registry_inv s'"
    using assms(1) keys unfolding registry_inv_def p fr by auto
  moreover have "NewIPAllocator cidr = Inr ((ipAllocator s')\<lparr>allocated := {}\<rparr>)"
  proof -
    from a obtain n where "a = \<lparr>network = n, allocated = {}, nextIP = incrementIP (IP n)\<rparr>"
      by (auto simp: NewIPAllocator_def split: option.splits)
    then have "(ipAllocator s')\<lparr>allocated := {}\<rparr> = a"
      using load_frame(3,4)[of "store s" ?e] by (simp add: s')
    then show ?thesis using a by simp
  qed
  ultimately show ?thesis using p fr by simp
qed

lemma NewServer_empty:
  assumes "NewServer cidr pub [] = Inr s0"
  shows "registry_inv s0 \<and> peers s0 = [] \<and> NewIPAllocator cidr = Inr (ipAllocator s0)"
  using assms by (auto simp: NewServer_def registry_inv_def split: sum.splits)

lemma step_registry_inv:
  assumes "registry_inv s" "step cidr e s = Some s'"
  shows "registry_inv s'"
proof (cases e)
  case (Register req idNow now)
  then show ?thesis using assms handleRegister_registry_inv by auto
next
  case (Heartbeat req now)
  then show ?thesis using assms handleHeartbeat_registry_inv by auto
next
  case (Sweep now)
  then show ?thesis using assms cleanupPass_registry_inv by auto
next
  case Restart
  then show ?thesis using assms restart_peers[OF assms(1)] by (auto split: sum.splits)
qed

lemma run_registry_inv:
  assumes "registry_inv s" "run cidr es s = Some s'"
  shows "registry_inv s'"
  using assms
  by (induction es arbitrary: s) (auto split: option.splits dest: step_registry_inv)

section \<open>Registering a known key\<close>

lemma update_existing_map:
  "distinct (map fst al) \<Longrightarrow> (k, p) \<in> set al \<Longrightarrow>
   AList.update k (g p) al = map (\<lambda>(k', q). if k' = k then (k', g q) else (k', q)) al"
proof (induction al)
  case Nil
  then show ?case by simp
next
  case (Cons a al)
  obtain k0 q0 where a: "a = (k0, q0)" by (cases a)
  show ?case
  proof (cases "k0 = k")
    case True
    then have "k \<notin> fst ` set al" using Cons.prems(1) a by simp
    then have "map (\<lambda>(k', q). if k' = k then (k', g q) else (k', q)) al = al"
      by (intro map_idI) (auto simp: image_iff)
    moreover have "q0 = p" using True Cons.prems a \<open>k \<notin> fst ` set al\<close> by (auto simp: image_iff)
    ultimately show ?thesis using True a by simp
  next
    case False
    then show ?thesis using Cons a by auto
  qed
qed

lemma handleRegister_existing:
  assumes inv: "registry_inv s" and mem: "(k, p) \<in> set (peers s)"
    and key: "PublicKey p = PublicKey_req req"
  shows "\<exists>resp s'. handleRegister s req idNow now = Some (Inr resp, s') \<and>
      Success resp \<and> PeerID resp = ID p \<and> AssignedIP resp = VirtualIP p \<and>
      peers s' = map (\<lambda>(k', q). if k' = k
           then (k', q\<lparr>Hostname := Hostname_req req, OS := OS_req req,
                      Endpoint := Endpoint_req req, LastHeartbeat := now, Online := True\<rparr>)
           else (k', q)) (peers s) \<and>
      map_of (peers s') k = Some (p\<lparr>Hostname := Hostname_req req, OS := OS_req req,
                      Endpoint := Endpoint_req req, LastHeartbeat := now, Online := True\<rparr>) \<and>
      peersByKey s' = peersByKey s \<and> ipAllocator s' = ipAllocator s \<and>
      publicKey s' = publicKey s \<and> store s' = map snd (peers s')"
proof -
  let ?g = "\<lambda>q. q\<lparr>Hostname := Hostname_req req, OS := OS_req req,
                      Endpoint := Endpoint_req req, LastHeartbeat := now, Online := True\<rparr>"
  have d: "distinct (map fst (peers s))" using inv by (simp add: registry_inv_def)
  have idx: "map_of (peersByKey s) (PublicKey_req req) = Some k" and idp: "ID p = k"
    using inv mem key by (auto simp: registry_inv_def)
  have look: "map_of (peers s) k = Some p" using d mem by simp
  let ?s' = "s\<lparr>peers := AList.update k (?g p) (peers s), store := SavePeer (store s) (?g p)\<rparr>"
  have run: "handleRegister s req idNow now =
      Some (Inr \<lparr>Success = True, Error = [], AssignedIP = VirtualIP p,
                  NetworkCIDR = Some (network (ipAllocator s)), PeerID = ID p,
                  ServerPublicKey = publicKey s\<rparr>, ?s')"
    by (simp add: handleRegister_def idx look Let_def)
  have inv': "registry_inv ?s'"
    using inv look by (rule registry_inv_update_existing) simp_all
  have "peers ?s' = map (\<lambda>(k', q). if k' = k then (k', ?g q) else (k', q)) (peers s)"
    using update_existing_map[OF d mem, of ?g] by simp
  moreover have "map_of (peers ?s') k = Some (?g p)" by (simp add: update_conv')
  moreover have "store ?s' = map snd (peers ?s')" using inv' by (simp add: registry_inv_def)
  ultimately show ?thesis using run by simp
qed

text \<open>
  Claim C9. In every state the coordinator reaches from an empty store, a \<^verbatim>\<open>Register\<close>
  call whose public key is the key of a record answers with that record's id and
  address and rewrites the record with the request's hostname, OS and endpoint, the
  clock reading as last heartbeat and \<open>Online = True\<close>. The record's id, public key,
  address, allowed addresses and exit-node flag stay as they were, whatever the
  request's exit-node flag says; every other record, the key index and the allocator are
  unchanged, and the store holds the table after the call.
\<close>

theorem register_existing_frame:
  assumes "NewServer cidr pub [] = Inr s0" "run cidr es s0 = Some s"
    and "(k, p) \<in> set (peers s)" "PublicKey p = PublicKey_req req"
  shows "\<exists>resp s' p'. handleRegister s req idNow now = Some (Inr resp, s') \<and>
      Success resp \<and> PeerID resp = ID p \<and> AssignedIP resp = VirtualIP p \<and>
      peers s' = map (\<lambda>(k', q). if k' = k
           then (k', q\<lparr>Hostname := Hostname_req req, OS := OS_req req,
                      Endpoint := Endpoint_req req, LastHeartbeat := now, Online := True\<rparr>)
           else (k', q)) (peers s) \<and>
      map_of (peers s') k = Some p' \<and>
      ID p' = ID p \<and> PublicKey p' = PublicKey p \<and> VirtualIP p' = VirtualIP p \<and>
      AllowedIPs p' = AllowedIPs p \<and> ExitNode p' = ExitNode p \<and>
      Hostname p' = Hostname_req req \<and> OS p' = OS_req req \<and> Endpoint p' = Endpoint_req req \<and>
      LastHeartbeat p' = now \<and> Online p' \<and>
      peersByKey s' = peersByKey s \<and> ipAllocator s' = ipAllocator s \<and>
      publicKey s' = publicKey s \<and> store s' = map snd (peers s')"
proof -
  have "registry_inv s0" using NewServer_empty[OF assms(1)] by simp
  then have "registry_inv s" using assms(2) by (rule run_registry_inv)
  from handleRegister_existing[OF this assms(3,4), of idNow now]
  show ?thesis by auto
qed

section \<open>An example coordinator\<close>

lemma generatePeerID_examples:
  "generatePeerID 1 = ''peer-1''" "generatePeerID 2 = ''peer-2''"
  by (simp_all add: generatePeerID_def Sprintf_d_def digit_def)

lemma example_NewServer:
  "NewServer ''10.100.0.0/16'' ''srv'' [] =
     Inr \<lparr>ipAllocator = \<lparr>network = example_net, allocated = {}, nextIP = 0x0A640001\<rparr>,
          peers = [], peersByKey = [], publicKey = ''srv'', store = []\<rparr>"
  by (simp add: NewServer_def New_default example_net_def)

lemma example_register_A:
  "handleRegister
     \<lparr>ipAllocator = \<lparr>network = example_net, allocated = {}, nextIP = 0x0A640001\<rparr>,
      peers = [], peersByKey = [], publicKey = ''srv'', store = []\<rparr>
     (example_request ''A'') 1 1 =
   Some (Inr \<lparr>Success = True, Error = [], AssignedIP = ''10.100.0.1'',
               NetworkCIDR = Some example_net, PeerID = ''peer-1'', ServerPublicKey = ''srv''\<rparr>,
         \<lparr>ipAllocator = \<lparr>network = example_net, allocated = {''10.100.0.1''}, nextIP = 0x0A640002\<rparr>,
          peers = [(''peer-1'', example_peer ''peer-1'' ''A'' ''10.100.0.1'' 1 True)],
          peersByKey = [(''A'', ''peer-1'')], publicKey = ''srv'',
          store = [example_peer ''peer-1'' ''A'' ''10.100.0.1'' 1 True]\<rparr>)"
  by (simp add: handleRegister_def example_net_def first_three(1) generatePeerID_examples
      example_request_def example_peer_def Let_def)

theorem register_existing_frame_witness:
  "NewServer ''10.100.0.0/16'' ''srv'' [] =
     Inr \<lparr>ipAllocator = \<lparr>network = example_net, allocated = {}, nextIP = 0x0A640001\<rparr>,
          peers = [], peersByKey = [], publicKey = ''srv'', store = []\<rparr> \<and>
   run ''10.100.0.0/16'' [Register (example_request ''A'') 1 1]
     \<lparr>ipAllocator = \<lparr>network = example_net, allocated = {}, nextIP = 0x0A640001\<rparr>,
      peers = [], peersByKey = [], publicKey = ''srv'', store = []\<rparr> =
     Some \<lparr>ipAllocator = \<lparr>network = example_net, allocated = {''10.100.0.1''}, nextIP = 0x0A640002\<rparr>,
          peers = [(''peer-1'', example_peer ''peer-1'' ''A'' ''10.100.0.1'' 1 True)],
          peersByKey = [(''A'', ''peer-1'')], publicKey = ''srv'',
          store = [example_peer ''peer-1'' ''A'' ''10.100.0.1'' 1 True]\<rparr> \<and>
   (\<exists>resp s' p'.
      handleRegister
        \<lparr>ipAllocator = \<lparr>network = example_net, allocated = {''10.100.0.1''}, nextIP = 0x0A640002\<rparr>,
          peers = [(''peer-1'', example_peer ''peer-1'' ''A'' ''10.100.0.1'' 1 True)],
          peersByKey = [(''A'', ''peer-1'')], publicKey = ''srv'',
          store = [example_peer ''peer-1'' ''A'' ''10.100.0.1'' 1 True]\<rparr>
        ((example_request ''A'')\<lparr>Hostname_req := ''renamed'', ExitNode_req := True\<rparr>) 5 7 =
        Some (Inr resp, s') \<and>
      PeerID resp = ''peer-1'' \<and> AssignedIP resp = ''10.100.0.1'' \<and>
      map_of (peers s') ''peer-1'' = Some p' \<and> \<not> ExitNode p' \<and>
      AllowedIPs p' = [''10.100.0.1/32''] \<and> Hostname p' = ''renamed'' \<and>
      LastHeartbeat p' = 7 \<and> ipAllocator s' =
        \<lparr>network = example_net, allocated = {''10.100.0.1''}, nextIP = 0x0A640002\<rparr>)"
proof -
  let ?ini = "\<lparr>ipAllocator = \<lparr>network = example_net, allocated = {}, nextIP = 0x0A640001\<rparr>,
      peers = [], peersByKey = [], publicKey = ''srv'', store = []\<rparr>"
  let ?one = "\<lparr>ipAllocator = \<lparr>network = example_net, allocated = {''10.100.0.1''}, nextIP = 0x0A640002\<rparr>,
          peers = [(''peer-1'', example_peer ''peer-1'' ''A'' ''10.100.0.1'' 1 True)],
          peersByKey = [(''A'', ''peer-1'')], publicKey = ''srv'',
          store = [example_peer ''peer-1'' ''A'' ''10.100.0.1'' 1 True]\<rparr>"
  let ?req = "(example_request ''A'')\<lparr>Hostname_req := ''renamed'', ExitNode_req := True\<rparr>"
  have r: "run ''10.100.0.0/16'' [Register (example_request ''A'') 1 1] ?ini = Some ?one"
    by (simp add: example_register_A)
  have m: "(''peer-1'', example_peer ''peer-1'' ''A'' ''10.100.0.1'' 1 True) \<in> set (peers ?one)"
    by simp
  have k: "PublicKey (example_peer ''peer-1'' ''A'' ''10.100.0.1'' 1 True) = PublicKey_req ?req"
    by (simp add: example_peer_def example_request_def)
  from register_existing_frame[OF example_NewServer r m k, of 5 7]
  have "\<exists>resp s' p'. handleRegister ?one ?req 5 7 = Some (Inr resp, s') \<and>
      PeerID resp = ''peer-1'' \<and> AssignedIP resp = ''10.100.0.1'' \<and>
      map_of (peers s') ''peer-1'' = Some p' \<and> \<not> ExitNode p' \<and>
      AllowedIPs p' = [''10.100.0.1/32''] \<and> Hostname p' = ''renamed'' \<and>
      LastHeartbeat p' = 7 \<and> ipAllocator s' =
        \<lparr>network = example_net, allocated = {''10.100.0.1''}, nextIP = 0x0A640002\<rparr>"
    by (simp add: example_peer_def example_request_def) blast
  with example_NewServer r show ?thesis by blast
qed

section \<open>The peer list\<close>

lemma example_register_B:
  "handleRegister
     \<lparr>ipAllocator = \<lparr>network = example_net, allocated = {''10.100.0.1''}, nextIP = 0x0A640002\<rparr>,
      peers = [(''peer-1'', example_peer ''peer-1'' ''A'' ''10.100.0.1'' 1 True)],
      peersByKey = [(''A'', ''peer-1'')], publicKey = ''srv'',
      store = [example_peer ''peer-1'' ''A'' ''10.100.0.1'' 1 True]\<rparr>
     (example_request ''B'') 2 2 =
   Some (Inr \<lparr>Success = True, Error = [], AssignedIP = ''10.100.0.2'',
               NetworkCIDR = Some example_net, PeerID = ''peer-2'', ServerPublicKey = ''srv''\<rparr>,
         \<lparr>ipAllocator = \<lparr>network = example_net, allocated = {''10.100.0.2'', ''10.100.0.1''},
                         nextIP = 0x0A640003\<rparr>,
          peers = [(''peer-1'', example_peer ''peer-1'' ''A'' ''10.100.0.1'' 1 True),
                   (''peer-2'', example_peer ''peer-2'' ''B'' ''10.100.0.2'' 2 True)],
          peersByKey = [(''A'', ''peer-1''), (''B'', ''peer-2'')], publicKey = ''srv'',
          store = [example_peer ''peer-1'' ''A'' ''10.100.0.1'' 1 True,
                   example_peer ''peer-2'' ''B'' ''10.100.0.2'' 2 True]\<rparr>)"
  by (simp add: handleRegister_def example_net_def first_three(2) generatePeerID_examples
      example_request_def example_peer_def Let_def)

lemma example_sweep:
  "cleanupPass
     \<lparr>ipAllocator = \<lparr>network = example_net, allocated = {''10.100.0.2'', ''10.100.0.1''},
                     nextIP = 0x0A640003\<rparr>,
      peers = [(''peer-1'', example_peer ''peer-1'' ''A'' ''10.100.0.1'' 1 True),
               (''peer-2'', example_peer ''peer-2'' ''B'' ''10.100.0.2'' 2 True)],
      peersByKey = [(''A'', ''peer-1''), (''B'', ''peer-2'')], publicKey = ''srv'',
      store = [example_peer ''peer-1'' ''A'' ''10.100.0.1'' 1 True,
               example_peer ''peer-2'' ''B'' ''10.100.0.2'' 2 True]\<rparr> 1000000000000 =
     \<lparr>ipAllocator = \<lparr>network = example_net, allocated = {''10.100.0.2'', ''10.100.0.1''},
                     nextIP = 0x0A640003\<rparr>,
      peers = [(''peer-1'', example_peer ''peer-1'' ''A'' ''10.100.0.1'' 1 False),
               (''peer-2'', example_peer ''peer-2'' ''B'' ''10.100.0.2'' 2 False)],
      peersByKey = [(''A'', ''peer-1''), (''B'', ''peer-2'')], publicKey = ''srv'',
      store = [example_peer ''peer-1'' ''A'' ''10.100.0.1'' 1 False,
               example_peer ''peer-2'' ''B'' ''10.100.0.2'' 2 False]\<rparr>"
  by (simp add: cleanupPass_def Sub_def HeartbeatTimeout_def example_peer_def)

lemma handlePeerList_others:
  assumes "registry_inv s" "map_of (peers s) caller = Some c"
  shows "handlePeerList s caller = Inr (map snd (filter (\<lambda>(k, p). k \<noteq> caller) (peers s))) \<and>
     (\<forall>k p. (k, p) \<in> set (peers s) \<longrightarrow>
        (p \<in> set (map snd (filter (\<lambda>(k, p). k \<noteq> caller) (peers s))) \<longleftrightarrow> k \<noteq> caller))"
proof -
  from assms(2) have "(caller, c) \<in> set (peers s)" by (rule map_of_SomeD)
  with assms(1) have ne: "caller \<noteq> []" by (auto simp: registry_inv_def)
  have ids: "ID p = k" if "(k, p) \<in> set (peers s)" for k p
    using assms(1) that by (auto simp: registry_inv_def)
  have "(p \<in> set (map snd (filter (\<lambda>(k, p). k \<noteq> caller) (peers s)))) = (k \<noteq> caller)"
    if "(k, p) \<in> set (peers s)" for k p
  proof
    assume "p \<in> set (map snd (filter (\<lambda>(k, p). k \<noteq> caller) (peers s)))"
    then obtain k' where "(k', p) \<in> set (peers s)" "k' \<noteq> caller" by auto
    with ids that show "k \<noteq> caller" by metis
  next
    assume "k \<noteq> caller"
    with that show "p \<in> set (map snd (filter (\<lambda>(k, p). k \<noteq> caller) (peers s)))" by force
  qed
  then show ?thesis using ne assms(2) by (simp add: handlePeerList_def)
qed

text \<open>
  Claim C1, amended. In every state the coordinator reaches from an empty store and for
  every registered caller id, \<^verbatim>\<open>handlePeerList\<close> answers with the records of the table
  whose id is not the caller's, each as it is recorded: a record of the table is in the
  answer exactly when its id is not the caller's, whatever its \<open>Online\<close> field.
\<close>

theorem peer_list_all_others:
  assumes "NewServer cidr pub [] = Inr s0" "run cidr es s0 = Some s"
    and "map_of (peers s) caller = Some c"
  shows "handlePeerList s caller = Inr (map snd (filter (\<lambda>(k, p). k \<noteq> caller) (peers s))) \<and>
     (\<forall>k p. (k, p) \<in> set (peers s) \<longrightarrow>
        (p \<in> set (map snd (filter (\<lambda>(k, p). k \<noteq> caller) (peers s))) \<longleftrightarrow> k \<noteq> caller))"
proof -
  have "registry_inv s0" using NewServer_empty[OF assms(1)] by simp
  then have "registry_inv s" using assms(2) by (rule run_registry_inv)
  then show ?thesis using assms(3) by (rule handlePeerList_others)
qed

lemma example_run_swept:
  "run ''10.100.0.0/16''
     [Register (example_request ''A'') 1 1, Register (example_request ''B'') 2 2, Sweep 1000000000000]
     \<lparr>ipAllocator = \<lparr>network = example_net, allocated = {}, nextIP = 0x0A640001\<rparr>,
      peers = [], peersByKey = [], publicKey = ''srv'', store = []\<rparr> =
   Some \<lparr>ipAllocator = \<lparr>network = example_net, allocated = {''10.100.0.2'', ''10.100.0.1''},
                     nextIP = 0x0A640003\<rparr>,
      peers = [(''peer-1'', example_peer ''peer-1'' ''A'' ''10.100.0.1'' 1 False),
               (''peer-2'', example_peer ''peer-2'' ''B'' ''10.100.0.2'' 2 False)],
      peersByKey = [(''A'', ''peer-1''), (''B'', ''peer-2'')], publicKey = ''srv'',
      store = [example_peer ''peer-1'' ''A'' ''10.100.0.1'' 1 False,
               example_peer ''peer-2'' ''B'' ''10.100.0.2'' 2 False]\<rparr>"
  by (simp only: run.simps step.simps example_register_A example_register_B example_sweep
      option.map option.case snd_conv)

text \<open>
  As the claim is stated it fails: after two registrations and a sweeper pass that finds
  both heartbeats older than the timeout, the list for the first peer holds the second
  peer with \<open>Online = False\<close>. The handler has no test of \<open>Online\<close>; the agent's
  \<^verbatim>\<open>syncPeers\<close> passes over such peers instead.
\<close>

theorem peer_list_returns_offline_peer:
  "NewServer ''10.100.0.0/16'' ''srv'' [] =
     Inr \<lparr>ipAllocator = \<lparr>network = example_net, allocated = {}, nextIP = 0x0A640001\<rparr>,
          peers = [], peersByKey = [], publicKey = ''srv'', store = []\<rparr> \<and>
   (\<exists>s. run ''10.100.0.0/16''
          [Register (example_request ''A'') 1 1, Register (example_request ''B'') 2 2,
           Sweep 1000000000000]
          \<lparr>ipAllocator = \<lparr>network = example_net, allocated = {}, nextIP = 0x0A640001\<rparr>,
           peers = [], peersByKey = [], publicKey = ''srv'', store = []\<rparr> = Some s \<and>
        handlePeerList s ''peer-1'' = Inr [example_peer ''peer-2'' ''B'' ''10.100.0.2'' 2 False]) \<and>
   \<not> Online (example_peer ''peer-2'' ''B'' ''10.100.0.2'' 2 False)"
proof -
  have "handlePeerList
      \<lparr>ipAllocator = \<lparr>network = example_net, allocated = {''10.100.0.2'', ''10.100.0.1''},
                     nextIP = 0x0A640003\<rparr>,
      peers = [(''peer-1'', example_peer ''peer-1'' ''A'' ''10.100.0.1'' 1 False),
               (''peer-2'', example_peer ''peer-2'' ''B'' ''10.100.0.2'' 2 False)],
      peersByKey = [(''A'', ''peer-1''), (''B'', ''peer-2'')], publicKey = ''srv'',
      store = [example_peer ''peer-1'' ''A'' ''10.100.0.1'' 1 False,
               example_peer ''peer-2'' ''B'' ''10.100.0.2'' 2 False]\<rparr> ''peer-1'' =
     Inr [example_peer ''peer-2'' ''B'' ''10.100.0.2'' 2 False]"
    by (simp add: handlePeerList_def)
  moreover have "\<not> Online (example_peer ''peer-2'' ''B'' ''10.100.0.2'' 2 False)"
    by (simp add: example_peer_def)
  ultimately show ?thesis using example_NewServer example_run_swept by blast
qed

theorem peer_list_all_others_witness:
  "NewServer ''10.100.0.0/16'' ''srv'' [] =
     Inr \<lparr>ipAllocator = \<lparr>network = example_net, allocated = {}, nextIP = 0x0A640001\<rparr>,
          peers = [], peersByKey = [], publicKey = ''srv'', store = []\<rparr> \<and>
   (\<exists>s c. run ''10.100.0.0/16''
          [Register (example_request ''A'') 1 1, Register (example_request ''B'') 2 2,
           Sweep 1000000000000]
          \<lparr>ipAllocator = \<lparr>network = example_net, allocated = {}, nextIP = 0x0A640001\<rparr>,
           peers = [], peersByKey = [], publicKey = ''srv'', store = []\<rparr> = Some s \<and>
        map_of (peers s) ''peer-2'' = Some c \<and>
        handlePeerList s ''peer-2'' = Inr [example_peer ''peer-1'' ''A'' ''10.100.0.1'' 1 False])"
proof -
  let ?ini = "\<lparr>ipAllocator = \<lparr>network = example_net, allocated = {}, nextIP = 0x0A640001\<rparr>,
           peers = [], peersByKey = [], publicKey = ''srv'', store = []\<rparr>"
  let ?fin = "\<lparr>ipAllocator = \<lparr>network = example_net, allocated = {''10.100.0.2'', ''10.100.0.1''},
                     nextIP = 0x0A640003\<rparr>,
      peers = [(''peer-1'', example_peer ''peer-1'' ''A'' ''10.100.0.1'' 1 False),
               (''peer-2'', example_peer ''peer-2'' ''B'' ''10.100.0.2'' 2 False)],
      peersByKey = [(''A'', ''peer-1''), (''B'', ''peer-2'')], publicKey = ''srv'',
      store = [example_peer ''peer-1'' ''A'' ''10.100.0.1'' 1 False,
               example_peer ''peer-2'' ''B'' ''10.100.0.2'' 2 False]\<rparr>"
  have m: "map_of (peers ?fin) ''peer-2'' = Some (example_peer ''peer-2'' ''B'' ''10.100.0.2'' 2 False)"
    by simp
  from peer_list_all_others[OF example_NewServer example_run_swept m]
  have "handlePeerList ?fin ''peer-2'' = Inr [example_peer ''peer-1'' ''A'' ''10.100.0.1'' 1 False]"
    by simp
  with example_NewServer example_run_swept m show ?thesis by blast
qed

section \<open>Registration and the form of the key\<close>










section \<open>Registration twice under one key\<close>

lemma example_register_B_same_instant:
  "handleRegister
     \<lparr>ipAllocator = \<lparr>network = example_net, allocated = {''10.100.0.1''}, nextIP = 0x0A640002\<rparr>,
      peers = [(''peer-1'', example_peer ''peer-1'' ''A'' ''10.100.0.1'' 1 True)],
      peersByKey = [(''A'', ''peer-1'')], publicKey = ''srv'',
      store = [example_peer ''peer-1'' ''A'' ''10.100.0.1'' 1 True]\<rparr>
     (example_request ''B'') 1 1 =
   Some (Inr \<lparr>Success = True, Error = [], AssignedIP = ''10.100.0.2'',
               NetworkCIDR = Some example_net, PeerID = ''peer-1'', ServerPublicKey = ''srv''\<rparr>,
         \<lparr>ipAllocator = \<lparr>network = example_net, allocated = {''10.100.0.2'', ''10.100.0.1''},
                         nextIP = 0x0A640003\<rparr>,
          peers = [(''peer-1'', example_peer ''peer-1'' ''B'' ''10.100.0.2'' 1 True)],
          peersByKey = [(''A'', ''peer-1''), (''B'', ''peer-1'')], publicKey = ''srv'',
          store = [example_peer ''peer-1'' ''B'' ''10.100.0.2'' 1 True]\<rparr>)"
  by (simp add: handleRegister_def example_net_def first_three(2) generatePeerID_examples
      example_request_def example_peer_def Let_def)

lemma example_register_A_again:
  "handleRegister
     \<lparr>ipAllocator = \<lparr>network = example_net, allocated = {''10.100.0.2'', ''10.100.0.1''},
                     nextIP = 0x0A640003\<rparr>,
      peers = [(''peer-1'', example_peer ''peer-1'' ''B'' ''10.100.0.2'' 1 True)],
      peersByKey = [(''A'', ''peer-1''), (''B'', ''peer-1'')], publicKey = ''srv'',
      store = [example_peer ''peer-1'' ''B'' ''10.100.0.2'' 1 True]\<rparr>
     (example_request ''A'') 2 2 =
   Some (Inr \<lparr>Success = True, Error = [], AssignedIP = ''10.100.0.2'',
               NetworkCIDR = Some example_net, PeerID = ''peer-1'', ServerPublicKey = ''srv''\<rparr>,
         \<lparr>ipAllocator = \<lparr>network = example_net, allocated = {''10.100.0.2'', ''10.100.0.1''},
                         nextIP = 0x0A640003\<rparr>,
          peers = [(''peer-1'', example_peer ''peer-1'' ''B'' ''10.100.0.2'' 2 True)],
          peersByKey = [(''A'', ''peer-1''), (''B'', ''peer-1'')], publicKey = ''srv'',
          store = [example_peer ''peer-1'' ''B'' ''10.100.0.2'' 2 True]\<rparr>)"
  by (simp add: handleRegister_def example_net_def example_request_def example_peer_def Let_def)

text \<open>
  Claim C2. The identifier of a new peer is the text of the clock reading, so two new keys
  registered at one reading get one identifier, and the second record replaces the first in
  \<^verbatim>\<open>peers\<close> while both keys stay in \<^verbatim>\<open>peersByKey\<close>. At the new coordinator, key \<open>''A''\<close>
  registers at reading 1 and is given \<open>10.100.0.1\<close>; key \<open>''B''\<close> registers at the same
  reading; key \<open>''A''\<close> registers again and is now given \<open>10.100.0.2\<close>, and the only record
  of the registry carries key \<open>''B''\<close>.
\<close>

theorem register_same_key_other_address:
  "NewServer ''10.100.0.0/16'' ''srv'' [] =
     Inr \<lparr>ipAllocator = \<lparr>network = example_net, allocated = {}, nextIP = 0x0A640001\<rparr>,
          peers = [], peersByKey = [], publicKey = ''srv'', store = []\<rparr> \<and>
   handleRegister
     \<lparr>ipAllocator = \<lparr>network = example_net, allocated = {}, nextIP = 0x0A640001\<rparr>,
      peers = [], peersByKey = [], publicKey = ''srv'', store = []\<rparr>
     (example_request ''A'') 1 1 =
   Some (Inr \<lparr>Success = True, Error = [], AssignedIP = ''10.100.0.1'',
               NetworkCIDR = Some example_net, PeerID = ''peer-1'', ServerPublicKey = ''srv''\<rparr>,
         \<lparr>ipAllocator = \<lparr>network = example_net, allocated = {''10.100.0.1''}, nextIP = 0x0A640002\<rparr>,
          peers = [(''peer-1'', example_peer ''peer-1'' ''A'' ''10.100.0.1'' 1 True)],
          peersByKey = [(''A'', ''peer-1'')], publicKey = ''srv'',
          store = [example_peer ''peer-1'' ''A'' ''10.100.0.1'' 1 True]\<rparr>) \<and>
   handleRegister
     \<lparr>ipAllocator = \<lparr>network = example_net, allocated = {''10.100.0.1''}, nextIP = 0x0A640002\<rparr>,
      peers = [(''peer-1'', example_peer ''peer-1'' ''A'' ''10.100.0.1'' 1 True)],
      peersByKey = [(''A'', ''peer-1'')], publicKey = ''srv'',
      store = [example_peer ''peer-1'' ''A'' ''10.100.0.1'' 1 True]\<rparr>
     (example_request ''B'') 1 1 =
   Some (Inr \<lparr>Success = True, Error = [], AssignedIP = ''10.100.0.2'',
               NetworkCIDR = Some example_net, PeerID = ''peer-1'', ServerPublicKey = ''srv''\<rparr>,
         \<lparr>ipAllocator = \<lparr>network = example_net, allocated = {''10.100.0.2'', ''10.100.0.1''},
                         nextIP = 0x0A640003\<rparr>,
          peers = [(''peer-1'', example_peer ''peer-1'' ''B'' ''10.100.0.2'' 1 True)],
          peersByKey = [(''A'', ''peer-1''), (''B'', ''peer-1'')], publicKey = ''srv'',
          store = [example_peer ''peer-1'' ''B'' ''10.100.0.2'' 1 True]\<rparr>) \<and>
   handleRegister
     \<lparr>ipAllocator = \<lparr>network = example_net, allocated = {''10.100.0.2'', ''10.100.0.1''},
                     nextIP = 0x0A640003\<rparr>,
      peers = [(''peer-1'', example_peer ''peer-1'' ''B'' ''10.100.0.2'' 1 True)],
      peersByKey = [(''A'', ''peer-1''), (''B'', ''peer-1'')], publicKey = ''srv'',
      store = [example_peer ''peer-1'' ''B'' ''10.100.0.2'' 1 True]\<rparr>
     (example_request ''A'') 2 2 =
   Some (Inr \<lparr>Success = True, Error = [], AssignedIP = ''10.100.0.2'',
               NetworkCIDR = Some example_net, PeerID = ''peer-1'', ServerPublicKey = ''srv''\<rparr>,
         \<lparr>ipAllocator = \<lparr>network = example_net, allocated = {''10.100.0.2'', ''10.100.0.1''},
                         nextIP = 0x0A640003\<rparr>,
          peers = [(''peer-1'', example_peer ''peer-1'' ''B'' ''10.100.0.2'' 2 True)],
          peersByKey = [(''A'', ''peer-1''), (''B'', ''peer-1'')], publicKey = ''srv'',
          store = [example_peer ''peer-1'' ''B'' ''10.100.0.2'' 2 True]\<rparr>)"
  using example_NewServer example_register_A example_register_B_same_instant
    example_register_A_again
  by (intro conjI)

section \<open>The addresses of the registry\<close>








end
